theory Spec2Isabelle
  imports Complex_Main "HOL-Library.Word"
begin

section \<open>Secure password generator: the generator\<close>

text \<open>
  This part embeds the class \<^verbatim>\<open>PasswordGenerator\<close> of
  \<^verbatim>\<open>src/js/password-generator.js\<close>.

  Conventions of the embedding.
  \<^item> A JavaScript string is a \<open>string\<close>: one \<open>char\<close> for each UTF-16 code unit, so the
    embedding covers the strings whose code units are below 256. Every string the
    generator builds is ASCII.
  \<^item> \<^verbatim>\<open>window.crypto.getRandomValues\<close> is an explicit source of bytes: a list of
    \<open>8 word\<close> that each draw consumes from the front. A list is a finite prefix of what
    the platform would deliver; a computation that asks for more than the prefix holds
    stops with \<open>SourceExhausted\<close>.
  \<^item> The numbers of the generator (lengths, indices, bounds, drawn values) hold
    integers and are \<open>int\<close>; where the source adds or subtracts them, the result is
    rounded as a double is (\<open>roundDouble\<close> below).
  \<^item> An exception is a value \<open>Inl e\<close> of the result type.
\<close>

type_synonym byte = "8 word"

datatype error = RangeError | SourceExhausted

subsection \<open>Character sets and options\<close>

definition uppercaseChars :: string where
  "uppercaseChars = ''ABCDEFGHIJKLMNOPQRSTUVWXYZ''"

definition lowercaseChars :: string where
  "lowercaseChars = ''abcdefghijklmnopqrstuvwxyz''"

definition numberChars :: string where
  "numberChars = ''0123456789''"

definition symbolChars :: string where
  "symbolChars = ''!@#$%^&*()_+-=[]{}|;:,.<>?''"

definition similarChars :: string where
  "similarChars = ''1lI0O''"

text \<open>The field \<^verbatim>\<open>length\<close> of \<^verbatim>\<open>this.options\<close> is \<open>length_opt\<close> here.\<close>

record options =
  length_opt :: int
  uppercase :: bool
  lowercase :: bool
  numbers :: bool
  symbols :: bool
  excludeSimilar :: bool

subsection \<open>getSecureRandomInt\<close>

text \<open>
  \<^verbatim>\<open>Math.ceil(Math.log2(range) / 8)\<close> for \<open>range \<ge> 1\<close>, computed on integers: no byte
  for a range of one value, else one byte more than the range divided by 256 (rounded
  up) takes. Lemma \<open>bytesNeeded_log2\<close> below relates it to the source's expression.
\<close>

function bytesNeeded :: "int \<Rightarrow> nat" where
  "bytesNeeded rng = (if rng \<le> 1 then 0 else Suc (bytesNeeded ((rng + 255) div 256)))"
  by pat_completeness auto
termination
  by (relation "measure nat") auto

declare bytesNeeded.simps [simp del]

text \<open>
  The numbers of \<^verbatim>\<open>getSecureRandomInt\<close> are IEEE doubles that hold integers. An
  integer of magnitude up to \<open>2 ^ 53\<close> is a double; a larger one is rounded to the nearest
  double, which keeps its 53 leading bits, a tie going to the even neighbour.
  \<open>roundDouble\<close> is that rounding, and every sum and difference of the source goes
  through it. The products by 256 and the remainders are exact on doubles.
  \<^verbatim>\<open>Math.log2\<close> and \<^verbatim>\<open>Math.pow\<close> are taken at their exact values (\<open>bytesNeeded\<close> and
  \<open>256 ^ bytesNeeded\<close>). The bounds \<open>min\<close> and \<open>max\<close> are safe integers (of magnitude
  below \<open>2 ^ 53\<close>), so that no number here comes near the largest double.
\<close>

function bitLength :: "int \<Rightarrow> nat" where
  "bitLength x = (if x \<le> 0 then 0 else Suc (bitLength (x div 2)))"
  by pat_completeness auto
termination
  by (relation "measure nat") auto

declare bitLength.simps [simp del]

definition roundDouble :: "int \<Rightarrow> int" where
  "roundDouble x =
     (if \<bar>x\<bar> \<le> 2 ^ 53 then x
      else
        let e = bitLength \<bar>x\<bar> - 53;
            q = \<bar>x\<bar> div 2 ^ e;
            r = \<bar>x\<bar> mod 2 ^ e;
            q' = (if 2 * r > 2 ^ e \<or> (2 * r = 2 ^ e \<and> odd q) then q + 1 else q)
        in sgn x * (q' * 2 ^ e))"

text \<open>The loop \<^verbatim>\<open>value = (value * 256) + array[i]\<close>, each sum rounded.\<close>

definition drawnValue :: "byte list \<Rightarrow> int" where
  "drawnValue array = foldl (\<lambda>value b. roundDouble (value * 256 + uint b)) 0 array"

text \<open>The test \<^verbatim>\<open>value >= maxValue - (maxValue % range)\<close> that sends a draw back.\<close>

definition rejected :: "int \<Rightarrow> int \<Rightarrow> int \<Rightarrow> bool" where
  "rejected maxValue rng value = (value \<ge> roundDouble (maxValue - (maxValue mod rng)))"

text \<open>
  The three cases of \<open>range = max - min + 1\<close> (\<open>rng\<close> below):
  \<^item> \<open>rng = 0\<close>: \<^verbatim>\<open>Math.log2(0)\<close> is \<open>-Infinity\<close>, and
    \<^verbatim>\<open>new Uint8Array(-Infinity)\<close> throws a RangeError;
  \<^item> \<open>rng < 0\<close>: \<^verbatim>\<open>Math.log2\<close> gives NaN, the array has length 0, every comparison
    with NaN is false and \<^verbatim>\<open>min + (0 % rng)\<close> is \<open>min\<close>;
  \<^item> \<open>rng > 0\<close>: rejection sampling, the retry being the recursive call on the rest
    of the source.
\<close>

function getSecureRandomInt :: "int \<Rightarrow> int \<Rightarrow> byte list \<Rightarrow> error + (int \<times> byte list)" where
  "getSecureRandomInt mn mx src =
     (let rng = roundDouble (roundDouble (mx - mn) + 1) in
      if rng = 0 then Inl RangeError
      else if rng < 0 then Inr (mn, src)
      else if length src < bytesNeeded rng then Inl SourceExhausted
      else if rejected (256 ^ bytesNeeded rng) rng (drawnValue (take (bytesNeeded rng) src))
        then getSecureRandomInt mn mx (drop (bytesNeeded rng) src)
      else Inr (roundDouble (mn + drawnValue (take (bytesNeeded rng) src) mod rng),
                drop (bytesNeeded rng) src))"
  by pat_completeness auto
termination
proof (relation "measure (\<lambda>(mn, mx, src). length src)")
  show "wf (measure (\<lambda>(mn, mx, src). length src))"
    by simp
next
  fix mn mx :: int and src :: "byte list" and rng :: int
  assume r: "rng = roundDouble (roundDouble (mx - mn) + 1)" "rng \<noteq> 0" "\<not> rng < 0"
    and len: "\<not> length src < bytesNeeded rng"
    and rej: "rejected (256 ^ bytesNeeded rng) rng (drawnValue (take (bytesNeeded rng) src))"
  have "bytesNeeded rng \<noteq> 0"
  proof
    assume z: "bytesNeeded rng = 0"
    then have "rng \<le> 1"
      by (subst (asm) bytesNeeded.simps) (simp split: if_splits)
    with r have "rng = 1"
      by simp
    with rej z show False
      by (simp add: rejected_def drawnValue_def roundDouble_def)
  qed
  with len show "((mn, mx, drop (bytesNeeded rng) src), (mn, mx, src))
      \<in> measure (\<lambda>(mn, mx, src). length src)"
    by simp
qed

declare getSecureRandomInt.simps [simp del]

subsection \<open>generatePassword\<close>

text \<open>
  \<^verbatim>\<open>charset.replace(this.similarChars[i], '')\<close> for each similar character in turn:
  a string pattern replaces its first occurrence only.
\<close>

definition removeSimilar :: "string \<Rightarrow> string" where
  "removeSimilar cs = foldl (\<lambda>acc c. remove1 c acc) cs similarChars"

text \<open>
  The string that \<^verbatim>\<open>s[i]\<close> appends to a password: the character at \<open>i\<close>, or the
  text of \<^verbatim>\<open>undefined\<close> when \<open>i\<close> is not an index of \<open>s\<close>.
\<close>

definition charAt_str :: "string \<Rightarrow> int \<Rightarrow> string" where
  "charAt_str s i = (if 0 \<le> i \<and> i < int (length s) then [s ! nat i] else ''undefined'')"

text \<open>The local variable \<^verbatim>\<open>charset\<close> of \<^verbatim>\<open>generatePassword\<close>, with its fallback.\<close>

definition charset :: "options \<Rightarrow> string" where
  "charset opts =
     (let c0 = (if uppercase opts then uppercaseChars else []) @
               (if lowercase opts then lowercaseChars else []) @
               (if numbers opts then numberChars else []) @
               (if symbols opts then symbolChars else []);
          c1 = (if excludeSimilar opts then removeSimilar c0 else c0)
      in if length c1 = 0 then lowercaseChars @ numberChars else c1)"

text \<open>The loop that draws the initial password, \<open>n\<close> iterations left.\<close>

fun drawChars :: "nat \<Rightarrow> string \<Rightarrow> string \<Rightarrow> byte list \<Rightarrow> error + (string \<times> byte list)" where
  "drawChars 0 cs password src = Inr (password, src)"
| "drawChars (Suc n) cs password src =
     (case getSecureRandomInt 0 (int (length cs) - 1) src of
        Inl e \<Rightarrow> Inl e
      | Inr (randomIndex, src') \<Rightarrow>
          drawChars n cs (password @ charAt_str cs randomIndex) src')"

definition requiredSets :: "options \<Rightarrow> string list" where
  "requiredSets opts =
     (if uppercase opts then [uppercaseChars] else []) @
     (if lowercase opts then [lowercaseChars] else []) @
     (if numbers opts then [numberChars] else []) @
     (if symbols opts then [symbolChars] else [])"

text \<open>
  One iteration of the loop over \<^verbatim>\<open>requiredSets\<close>, on the password and the source.
  \<^verbatim>\<open>substring\<close> clamps its bounds to the string, as \<open>take\<close> and \<open>drop\<close> do.
\<close>

definition patchCharType ::
    "options \<Rightarrow> string \<Rightarrow> string \<times> byte list \<Rightarrow> error + (string \<times> byte list)" where
  "patchCharType opts charSet st =
     (case st of (modifiedPassword, src) \<Rightarrow>
        if excludeSimilar opts \<and> list_all (\<lambda>char. char \<in> set similarChars) charSet
        then Inr (modifiedPassword, src)
        else
          let hasCharFromSet = list_ex (\<lambda>char. char \<in> set charSet) modifiedPassword in
          if \<not> hasCharFromSet \<and> length charSet > 0 then
            let validChars = (if excludeSimilar opts then removeSimilar charSet else charSet) in
            if length validChars > 0 then
              (case getSecureRandomInt 0 (int (length validChars) - 1) src of
                 Inl e \<Rightarrow> Inl e
               | Inr (k, src1) \<Rightarrow>
                   (case getSecureRandomInt 0 (int (length modifiedPassword) - 1) src1 of
                      Inl e \<Rightarrow> Inl e
                    | Inr (randomPositionToReplace, src2) \<Rightarrow>
                        Inr (take (nat randomPositionToReplace) modifiedPassword @
                             charAt_str validChars k @
                             drop (nat (randomPositionToReplace + 1)) modifiedPassword, src2)))
            else Inr (modifiedPassword, src)
          else Inr (modifiedPassword, src))"

fun ensureLoop ::
    "options \<Rightarrow> string list \<Rightarrow> string \<times> byte list \<Rightarrow> error + (string \<times> byte list)" where
  "ensureLoop opts [] st = Inr st"
| "ensureLoop opts (charSet # sets) st =
     (case patchCharType opts charSet st of
        Inl e \<Rightarrow> Inl e
      | Inr st' \<Rightarrow> ensureLoop opts sets st')"

text \<open>The parameter \<^verbatim>\<open>charset\<close> is unused in the source as well.\<close>

definition ensureAllCharTypes ::
    "options \<Rightarrow> string \<Rightarrow> string \<Rightarrow> byte list \<Rightarrow> error + (string \<times> byte list)" where
  "ensureAllCharTypes opts password cs src = ensureLoop opts (requiredSets opts) (password, src)"

text \<open>
  The loop \<^verbatim>\<open>for (let i = 0; i < this.options.length; i++)\<close> runs
  \<open>nat (length_opt opts)\<close> times: not at all for a length of zero or below.
\<close>

definition generatePassword :: "options \<Rightarrow> byte list \<Rightarrow> error + string" where
  "generatePassword opts src =
     (case drawChars (nat (length_opt opts)) (charset opts) [] src of
        Inl e \<Rightarrow> Inl e
      | Inr (password, src') \<Rightarrow>
          (case ensureAllCharTypes opts password (charset opts) src' of
             Inl e \<Rightarrow> Inl e
           | Inr (password', src'') \<Rightarrow> Inr password'))"

subsection \<open>Notions of the statements about the generator\<close>

text \<open>The value of a sequence of bytes read big-endian, as an exact integer.\<close>

definition be_value :: "byte list \<Rightarrow> int" where
  "be_value array = foldl (\<lambda>value b. value * 256 + uint b) 0 array"

text \<open>
  Bounds that are safe integers, and at most \<open>2 ^ 48\<close> values between them: a draw then
  takes at most 6 bytes, and no sum of \<^verbatim>\<open>getSecureRandomInt\<close> is rounded.
\<close>

definition safeBounds :: "int \<Rightarrow> int \<Rightarrow> bool" where
  "safeBounds mn mx = (- (2 ^ 53) \<le> mn \<and> mx \<le> 2 ^ 53 \<and> mx - mn < 2 ^ 48)"

text \<open>The lengths the interface offers: 8 to 64.\<close>

definition validConfig :: "options \<Rightarrow> bool" where
  "validConfig opts = (8 \<le> length_opt opts \<and> length_opt opts \<le> 64)"

text \<open>
  The alphabet of a configuration: the characters of the classes whose flag is set,
  without the similar characters when those are excluded; the lowercase letters and
  the digits when no flag is set.
\<close>

definition alphabet :: "options \<Rightarrow> char set" where
  "alphabet opts =
     (let classes = (if uppercase opts then set uppercaseChars else {}) \<union>
                    (if lowercase opts then set lowercaseChars else {}) \<union>
                    (if numbers opts then set numberChars else {}) \<union>
                    (if symbols opts then set symbolChars else {})
      in if \<not> uppercase opts \<and> \<not> lowercase opts \<and> \<not> numbers opts \<and> \<not> symbols opts
         then set lowercaseChars \<union> set numberChars
         else if excludeSimilar opts then classes - set similarChars else classes)"

text \<open>The character set of \<^verbatim>\<open>generatePassword\<close> before the exclusion and the fallback.\<close>

definition c0 :: "options \<Rightarrow> string" where
  "c0 opts = (if uppercase opts then uppercaseChars else []) @
             (if lowercase opts then lowercaseChars else []) @
             (if numbers opts then numberChars else []) @
             (if symbols opts then symbolChars else [])"

text \<open>
  A source of bytes below 128. Such a byte is accepted by every draw over a range of
  at most 128 values, so no draw of the generator is sent back on it.
\<close>

definition lowBytes :: "byte list \<Rightarrow> bool" where
  "lowBytes src = list_all (\<lambda>b. b < 128) src"

section \<open>Secure password generator: the strength analyzer\<close>

text \<open>
  This part embeds the class \<^verbatim>\<open>PasswordStrengthAnalyzer\<close> (the second unnamed source
  file) and \<^verbatim>\<open>calculateStrength\<close> of the generator.

  A JavaScript number that is not an integer count is a \<open>real\<close>: logarithms, products
  and comparisons are exact, and the rounding and the overflow to \<^verbatim>\<open>Infinity\<close> of IEEE
  doubles are outside the embedding. Of the report that \<^verbatim>\<open>analyzePassword\<close> returns,
  the fields for the entropy, the strength level and the standards are embedded; the
  crack time, the formatted texts and the recommendations are not.
\<close>

subsection \<open>Character classes\<close>

definition charCode :: "char \<Rightarrow> nat" where
  "charCode c = of_char c"

text \<open>The classes \<^verbatim>\<open>[A-Z]\<close>, \<^verbatim>\<open>[a-z]\<close>, \<^verbatim>\<open>[0-9]\<close> and \<^verbatim>\<open>[^A-Za-z0-9]\<close>.\<close>

definition isUpper :: "char \<Rightarrow> bool" where
  "isUpper c = (65 \<le> charCode c \<and> charCode c \<le> 90)"

definition isLower :: "char \<Rightarrow> bool" where
  "isLower c = (97 \<le> charCode c \<and> charCode c \<le> 122)"

definition isDigit :: "char \<Rightarrow> bool" where
  "isDigit c = (48 \<le> charCode c \<and> charCode c \<le> 57)"

definition isSymbol :: "char \<Rightarrow> bool" where
  "isSymbol c = (\<not> isUpper c \<and> \<not> isLower c \<and> \<not> isDigit c)"

text \<open>
  \<^verbatim>\<open>[a-z]\<close> and \<^verbatim>\<open>[a-z0-9]\<close> under the flag \<^verbatim>\<open>i\<close>: without the flag \<^verbatim>\<open>u\<close> a character
  from 128 on is never folded onto an ASCII letter, so these match the ASCII letters
  of both cases.
\<close>

definition isLetter :: "char \<Rightarrow> bool" where
  "isLetter c = (isUpper c \<or> isLower c)"

definition isAlnum :: "char \<Rightarrow> bool" where
  "isAlnum c = (isLetter c \<or> isDigit c)"

text \<open>What \<^verbatim>\<open>.\<close> does not match: line feed and carriage return (of the code units below 256).\<close>

definition isLineTerminator :: "char \<Rightarrow> bool" where
  "isLineTerminator c = (charCode c = 10 \<or> charCode c = 13)"

text \<open>
  \<^verbatim>\<open>String.prototype.toLowerCase\<close> on the code units below 256: the ASCII capitals and
  the Latin-1 capitals (192 to 222, the multiplication sign 215 apart) move up by 32.
\<close>

definition toLowerCase_char :: "char \<Rightarrow> char" where
  "toLowerCase_char c =
     (if isUpper c \<or> (192 \<le> charCode c \<and> charCode c \<le> 222 \<and> charCode c \<noteq> 215)
      then char_of (charCode c + 32) else c)"

definition toLowerCase :: "string \<Rightarrow> string" where
  "toLowerCase s = map toLowerCase_char s"

text \<open>\<^verbatim>\<open>s.includes(sub)\<close>: \<open>sub\<close> starts at some position of \<open>s\<close>.\<close>

definition startsAt :: "string \<Rightarrow> string \<Rightarrow> bool" where
  "startsAt s sub = (take (length sub) s = sub)"

fun includes_str :: "string \<Rightarrow> string \<Rightarrow> bool" where
  "includes_str [] sub = (sub = [])"
| "includes_str (c # cs) sub = (startsAt (c # cs) sub \<or> includes_str cs sub)"

text \<open>\<^verbatim>\<open>s.replace(a, b)\<close> for one character \<open>a\<close>: its first occurrence only.\<close>

fun replace_char :: "char \<Rightarrow> char \<Rightarrow> string \<Rightarrow> string" where
  "replace_char a b [] = []"
| "replace_char a b (c # cs) = (if c = a then b # cs else c # replace_char a b cs)"

subsection \<open>Entropy\<close>

definition hasUppercase :: "string \<Rightarrow> bool" where
  "hasUppercase password = list_ex isUpper password"

definition hasLowercase :: "string \<Rightarrow> bool" where
  "hasLowercase password = list_ex isLower password"

definition hasNumbers :: "string \<Rightarrow> bool" where
  "hasNumbers password = list_ex isDigit password"

definition hasSymbols :: "string \<Rightarrow> bool" where
  "hasSymbols password = list_ex isSymbol password"

definition charsetSize :: "string \<Rightarrow> nat" where
  "charsetSize password =
     (if hasUppercase password then 26 else 0) + (if hasLowercase password then 26 else 0) +
     (if hasNumbers password then 10 else 0) + (if hasSymbols password then 33 else 0)"

text \<open>\<^verbatim>\<open>Math.log2(Math.pow(charsetSize, password.length))\<close>; the empty password gives \<open>log2 1\<close>.\<close>

definition baseEntropy :: "string \<Rightarrow> real" where
  "baseEntropy password = log 2 (real (charsetSize password) ^ length password)"

text \<open>
  \<^verbatim>\<open>password.match(/(.)\1+/g)\<close>: the matches from left to right, the empty list for
  \<^verbatim>\<open>null\<close>. A match starts at a character that \<^verbatim>\<open>.\<close> accepts and that is repeated; it
  takes every copy that follows, and the search goes on behind it.
\<close>

function matchRepeated :: "string \<Rightarrow> string list" where
  "matchRepeated [] = []"
| "matchRepeated (c # cs) =
     (if \<not> isLineTerminator c \<and> takeWhile (\<lambda>x. x = c) cs \<noteq> []
      then (c # takeWhile (\<lambda>x. x = c) cs) # matchRepeated (dropWhile (\<lambda>x. x = c) cs)
      else matchRepeated cs)"
  by pat_completeness auto

termination
  by (relation "measure length") (auto simp add: length_dropWhile_le less_Suc_eq_le)

text \<open>
  \<^verbatim>\<open>repeatedChars.reduce((total, match) => total + match.length - 1, 0) * 0.5\<close>, and
  nothing when there is no match.
\<close>

definition repeatedPenalty :: "string \<Rightarrow> real" where
  "repeatedPenalty password =
     (let repeatedChars = matchRepeated password in
      if repeatedChars \<noteq> []
      then real_of_int (foldl (\<lambda>total m. total + int (length m) - 1) 0 repeatedChars) * 0.5
      else 0)"

text \<open>The strings \<^verbatim>\<open>s.substring(i, i + 3)\<close> for \<open>i < s.length - 2\<close>.\<close>

definition sequences :: "string \<Rightarrow> string list" where
  "sequences s = map (\<lambda>i. take 3 (drop i s)) [0 ..< length s - 2]"

definition checkForSequentialChars :: "string \<Rightarrow> nat" where
  "checkForSequentialChars password =
     (let lowerPassword = toLowerCase password;
          count1 = foldl (\<lambda>sequentialCount sequence.
                     if includes_str lowerPassword sequence then sequentialCount + length sequence
                     else sequentialCount) 0 (sequences ''abcdefghijklmnopqrstuvwxyz'')
      in foldl (\<lambda>sequentialCount sequence.
                     if includes_str password sequence then sequentialCount + length sequence
                     else sequentialCount) count1 (sequences ''0123456789''))"

text \<open>\<^verbatim>\<open>entropyPenalty += sequentialChars * 0.8\<close>.\<close>

definition sequentialPenalty :: "string \<Rightarrow> real" where
  "sequentialPenalty password = real (checkForSequentialChars password) * 0.8"

subsection \<open>Common patterns\<close>

text \<open>A literal of a pattern under the flag \<^verbatim>\<open>i\<close>: ASCII letters match in both cases.\<close>

definition foldCase :: "char \<Rightarrow> char" where
  "foldCase c = (if isLower c then char_of (charCode c - 32) else c)"

definition startsWithIgnoreCase :: "string \<Rightarrow> string \<Rightarrow> bool" where
  "startsWithIgnoreCase s w =
     (length w \<le> length s \<and> map foldCase (take (length w) s) = map foldCase w)"

text \<open>\<^verbatim>\<open>/^[a-z]+$/i\<close>, \<^verbatim>\<open>/^[0-9]+$/\<close> and \<^verbatim>\<open>/^[a-z0-9]+$/i\<close>.\<close>

definition lettersOnly :: "string \<Rightarrow> bool" where
  "lettersOnly password = (password \<noteq> [] \<and> list_all isLetter password)"

definition numbersOnly :: "string \<Rightarrow> bool" where
  "numbersOnly password = (password \<noteq> [] \<and> list_all isDigit password)"

definition alphanumericOnly :: "string \<Rightarrow> bool" where
  "alphanumericOnly password = (password \<noteq> [] \<and> list_all isAlnum password)"

text \<open>\<^verbatim>\<open>/^[a-z]{3,8}[0-9]{1,4}$/i\<close>: 3 to 8 letters, then 1 to 4 digits, and nothing else.\<close>

definition wordPlusNumbers :: "string \<Rightarrow> bool" where
  "wordPlusNumbers password =
     list_ex (\<lambda>n. list_ex (\<lambda>m. length password = n + m \<and>
                                 list_all isLetter (take n password) \<and>
                                 list_all isDigit (drop n password)) [1 ..< 5]) [3 ..< 9]"

text \<open>\<^verbatim>\<open>/^(password|pass|admin|user|login)[0-9]*$/i\<close>.\<close>

definition commonWord :: "string \<Rightarrow> bool" where
  "commonWord password =
     list_ex (\<lambda>w. startsWithIgnoreCase password w \<and> list_all isDigit (drop (length w) password))
       [''password'', ''pass'', ''admin'', ''user'', ''login'']"

text \<open>\<^verbatim>\<open>/^(qwerty|asdf|zxcv|1234|0000)/\<close>: a prefix, in this very case.\<close>

definition keyboardPattern :: "string \<Rightarrow> bool" where
  "keyboardPattern password =
     list_ex (\<lambda>w. startsAt password w) [''qwerty'', ''asdf'', ''zxcv'', ''1234'', ''0000'']"

text \<open>\<^verbatim>\<open>/(.)\1{2,}/\<close>: somewhere, three copies in a row of a character that \<^verbatim>\<open>.\<close> accepts.\<close>

fun repeatedThrice :: "string \<Rightarrow> bool" where
  "repeatedThrice (a # b # c # cs) =
     ((\<not> isLineTerminator a \<and> a = b \<and> b = c) \<or> repeatedThrice (b # c # cs))"
| "repeatedThrice cs = False"

text \<open>\<^verbatim>\<open>this.COMMON_PATTERNS.some(pattern => pattern.test(password))\<close>, in the order of the list.\<close>

definition checkForCommonPatterns :: "string \<Rightarrow> bool" where
  "checkForCommonPatterns password =
     (lettersOnly password \<or> numbersOnly password \<or> alphanumericOnly password \<or>
      wordPlusNumbers password \<or> commonWord password \<or> keyboardPattern password \<or>
      repeatedThrice password)"

text \<open>\<^verbatim>\<open>entropyPenalty += password.length * 0.2\<close> when a common pattern is found.\<close>

definition commonPatternPenalty :: "string \<Rightarrow> real" where
  "commonPatternPenalty password =
     (if checkForCommonPatterns password then real (length password) * 0.2 else 0)"

definition calculateEntropy :: "string \<Rightarrow> real" where
  "calculateEntropy password =
     (let entropyPenalty = 0 + repeatedPenalty password;
          entropyPenalty = entropyPenalty + sequentialPenalty password;
          entropyPenalty = entropyPenalty + commonPatternPenalty password
      in max 0 (baseEntropy password - entropyPenalty))"

subsection \<open>Strength levels\<close>

text \<open>
  An entry of \<^verbatim>\<open>STRENGTH_LEVELS\<close>; the fields \<^verbatim>\<open>min\<close> and \<^verbatim>\<open>max\<close> are \<open>min_r\<close> and
  \<open>max_r\<close>, and \<open>None\<close> is the bound \<^verbatim>\<open>Infinity\<close>.
\<close>

record strength_level =
  min_r :: real
  max_r :: "real option"
  label :: string
  color :: string

definition VERY_WEAK :: strength_level where
  "VERY_WEAK = \<lparr>min_r = 0, max_r = Some 30, label = ''Very Weak'', color = ''#FF5252''\<rparr>"

definition WEAK :: strength_level where
  "WEAK = \<lparr>min_r = 30, max_r = Some 50, label = ''Weak'', color = ''#FF5252''\<rparr>"

definition MEDIUM :: strength_level where
  "MEDIUM = \<lparr>min_r = 50, max_r = Some 70, label = ''Medium'', color = ''#FFAB00''\<rparr>"

definition STRONG :: strength_level where
  "STRONG = \<lparr>min_r = 70, max_r = Some 90, label = ''Strong'', color = ''#00C853''\<rparr>"

definition VERY_STRONG :: strength_level where
  "VERY_STRONG = \<lparr>min_r = 90, max_r = None, label = ''Very Strong'', color = ''#64FFDA''\<rparr>"

text \<open>The entries in the order of \<^verbatim>\<open>Object.entries\<close>: the order they are written in.\<close>

definition STRENGTH_LEVELS :: "strength_level list" where
  "STRENGTH_LEVELS = [VERY_WEAK, WEAK, MEDIUM, STRONG, VERY_STRONG]"

definition inRange :: "real \<Rightarrow> strength_level \<Rightarrow> bool" where
  "inRange entropy rg =
     (entropy \<ge> min_r rg \<and> (case max_r rg of None \<Rightarrow> True | Some m \<Rightarrow> entropy < m))"

definition getStrengthLevel :: "real \<Rightarrow> strength_level" where
  "getStrengthLevel entropy =
     (case find (inRange entropy) STRENGTH_LEVELS of
        Some rg \<Rightarrow> rg
      | None \<Rightarrow> VERY_STRONG)"

subsection \<open>Security standards\<close>

record security_standard =
  minLength :: nat
  requiresComplexity :: bool

definition STANDARD_NIST :: security_standard where
  "STANDARD_NIST = \<lparr>minLength = 8, requiresComplexity = False\<rparr>"

definition STANDARD_OWASP :: security_standard where
  "STANDARD_OWASP = \<lparr>minLength = 10, requiresComplexity = True\<rparr>"

definition STANDARD_MICROSOFT :: security_standard where
  "STANDARD_MICROSOFT = \<lparr>minLength = 8, requiresComplexity = True\<rparr>"

record compliance =
  NIST :: bool
  OWASP :: bool
  MICROSOFT :: bool

text \<open>
  The sum \<^verbatim>\<open>hasUppercase + hasLowercase + hasNumbers + hasSymbols\<close> counts the booleans
  that are true. The parameter \<^verbatim>\<open>options\<close> is not read.
\<close>

definition hasComplexity :: "string \<Rightarrow> bool" where
  "hasComplexity password =
     ((of_bool (hasUppercase password) + of_bool (hasLowercase password) +
       of_bool (hasNumbers password) + of_bool (hasSymbols password) :: nat) \<ge> 3)"

definition checkSecurityStandards :: "string \<Rightarrow> options \<Rightarrow> compliance" where
  "checkSecurityStandards password opts =
     \<lparr>NIST = (length password \<ge> minLength STANDARD_NIST),
      OWASP = (length password \<ge> minLength STANDARD_OWASP \<and>
               (hasComplexity password \<or> \<not> requiresComplexity STANDARD_OWASP)),
      MICROSOFT = (length password \<ge> minLength STANDARD_MICROSOFT \<and>
               (hasComplexity password \<or> \<not> requiresComplexity STANDARD_MICROSOFT))\<rparr>"

subsection \<open>The two reports\<close>

text \<open>\<^verbatim>\<open>Math.round\<close>: to the nearest integer, a half upwards.\<close>

definition round_js :: "real \<Rightarrow> int" where
  "round_js x = \<lfloor>x + 1 / 2\<rfloor>"

text \<open>The fields that both reports have, and those of \<^verbatim>\<open>analyzePassword\<close> alone.\<close>

record metrics =
  entropy :: int
  strengthLevel :: string
  strengthPercentage :: int

record report = metrics +
  strengthColor :: string
  hasCommonPatterns :: bool
  securityStandardsCompliance :: compliance

definition analyzePassword :: "string \<Rightarrow> options \<Rightarrow> report" where
  "analyzePassword password opts =
     (let e = calculateEntropy password;
          level = getStrengthLevel e
      in \<lparr>entropy = round_js e,
          strengthLevel = replace_char CHR '' '' CHR ''-'' (toLowerCase (label level)),
          strengthPercentage = min 100 (round_js ((e / 100) * 100)),
          strengthColor = color level,
          hasCommonPatterns = checkForCommonPatterns password,
          securityStandardsCompliance = checkSecurityStandards password opts\<rparr>)"

text \<open>\<^verbatim>\<open>calculateStrength\<close> of the generator: the entropy without any penalty.\<close>

definition calculateStrength :: "string \<Rightarrow> metrics" where
  "calculateStrength password =
     (let e = log 2 (real (charsetSize password) ^ length password)
      in \<lparr>entropy = round_js e,
          strengthLevel = (if e < 40 then ''weak''
                           else if e < 60 then ''medium''
                           else if e < 80 then ''strong''
                           else ''very-strong''),
          strengthPercentage = min 100 (round_js ((e / 100) * 100))\<rparr>)"

subsection \<open>Notions of the statements about the analyzer\<close>

text \<open>
  The number of the four character classes present in a password, for the statement
  about the standards.
\<close>

definition classesPresent :: "string \<Rightarrow> nat" where
  "classesPresent password =
     length (filter (\<lambda>isClass. list_ex isClass password) [isUpper, isLower, isDigit, isSymbol])"

text \<open>
  The ascending 3-character runs of the lowercase alphabet that occur in the
  password, letters compared without case, and those of the digit sequence that occur
  in it: every run once, however often it occurs.
\<close>

definition matchedSequences :: "string \<Rightarrow> string list" where
  "matchedSequences password =
     filter (\<lambda>run. includes_str (toLowerCase password) run)
       (sequences ''abcdefghijklmnopqrstuvwxyz'') @
     filter (\<lambda>run. includes_str password run) (sequences ''0123456789'')"

text \<open>
  The maximal runs of identical consecutive characters of a string, from left to
  right, and the penalty of 0.5 for each character of a run after its first.
\<close>

function runs :: "string \<Rightarrow> string list" where
  "runs [] = []"
| "runs (c # cs) = (c # takeWhile (\<lambda>x. x = c) cs) # runs (dropWhile (\<lambda>x. x = c) cs)"
  by pat_completeness auto

termination
  by (relation "measure length") (auto simp add: length_dropWhile_le less_Suc_eq_le)

definition runPenalty :: "string list \<Rightarrow> real" where
  "runPenalty rs = (\<Sum>r\<leftarrow>filter (\<lambda>r. 2 \<le> length r) rs. 0.5 * (real (length r) - 1))"

text \<open>The five level names in their order, from \<^verbatim>\<open>very-weak\<close> (0) to \<^verbatim>\<open>very-strong\<close> (4).\<close>

definition tierRank :: "string \<Rightarrow> nat" where
  "tierRank level =
     (if level = ''very-weak'' then 0
      else if level = ''weak'' then 1
      else if level = ''medium'' then 2
      else if level = ''strong'' then 3
      else 4)"

section \<open>Properties of the generator\<close>

subsection \<open>Bytes of a draw and exact sums\<close>

lemma bytesNeeded_one: "bytesNeeded 1 = 0"
  by (subst bytesNeeded.simps) simp

lemma bytesNeeded_small: "2 \<le> r \<Longrightarrow> r \<le> 256 \<Longrightarrow> bytesNeeded r = 1"
proof -
  assume a: "2 \<le> r" "r \<le> 256"
  then have "(r + 255) div 256 = 1" by simp
  with a show ?thesis
    by (subst bytesNeeded.simps) (simp add: bytesNeeded_one)
qed

lemma bytesNeeded_bounds:
  "1 \<le> rng \<Longrightarrow>
   rng \<le> 256 ^ bytesNeeded rng \<and> (0 < bytesNeeded rng \<longrightarrow> 256 ^ (bytesNeeded rng - 1) < rng)"
proof (induction rng rule: bytesNeeded.induct)
  case (1 rng)
  show ?case
  proof (cases "rng \<le> 1")
    case True
    with "1.prems" have "rng = 1"
      by simp
    then show ?thesis
      by (simp add: bytesNeeded_one)
  next
    case False
    let ?r = "(rng + 255) div 256"
    let ?k = "bytesNeeded ?r"
    have k: "bytesNeeded rng = Suc ?k"
      using False by (subst bytesNeeded.simps) simp
    have d: "rng + 255 = ?r * 256 + (rng + 255) mod 256"
      by simp
    have m: "0 \<le> (rng + 255) mod 256" "(rng + 255) mod 256 < 256"
      by simp_all
    from d m have lo: "?r * 256 \<le> rng + 255"
      by linarith
    from d m have hi: "rng \<le> ?r * 256"
      by linarith
    from False hi have "1 \<le> ?r"
      by linarith
    from "1.IH" [OF False this] have u: "?r \<le> 256 ^ ?k"
      and l: "0 < ?k \<longrightarrow> 256 ^ (?k - 1) < ?r"
      by simp_all
    from hi u have "rng \<le> 256 ^ Suc ?k"
      by simp
    moreover have "256 ^ ?k < rng"
    proof (cases ?k)
      case 0
      with False show ?thesis by simp
    next
      case (Suc j)
      with l have "256 ^ j + 1 \<le> ?r"
        by simp
      then have "(256 ^ j + 1) * 256 \<le> ?r * 256"
        by simp
      with lo Suc show ?thesis
        by (simp add: algebra_simps)
    qed
    ultimately show ?thesis
      by (simp add: k)
  qed
qed

lemma bytesNeeded_le:
  assumes "1 \<le> rng" "rng \<le> 256 ^ j"
  shows "bytesNeeded rng \<le> j"
proof (cases "bytesNeeded rng")
  case 0
  then show ?thesis by simp
next
  case (Suc i)
  with bytesNeeded_bounds [OF assms(1)] have "(256::int) ^ i < rng"
    by simp
  with assms(2) have "(256::int) ^ i < 256 ^ j"
    by linarith
  then have "i < j"
    by (rule power_less_imp_less_exp [rotated]) simp
  with Suc show ?thesis
    by simp
qed

lemma roundDouble_id: "\<bar>x\<bar> \<le> 2 ^ 53 \<Longrightarrow> roundDouble x = x"
  by (simp add: roundDouble_def)

lemma be_value_snoc: "be_value (array @ [b]) = be_value array * 256 + uint b"
  by (simp add: be_value_def)

lemma be_value_bounds: "0 \<le> be_value array \<and> be_value array < 256 ^ length array"
proof (induction array rule: rev_induct)
  case Nil
  show ?case by (simp add: be_value_def)
next
  case (snoc b array)
  have "0 \<le> uint b" "uint b < 256"
    using uint_bounded [of b] by simp_all
  with snoc show ?case
    by (simp add: be_value_snoc)
qed

lemma drawnValue_snoc:
  "drawnValue (array @ [b]) = roundDouble (drawnValue array * 256 + uint b)"
  by (simp add: drawnValue_def)

lemma drawnValue_exact: "length array \<le> 6 \<Longrightarrow> drawnValue array = be_value array"
proof (induction array rule: rev_induct)
  case Nil
  show ?case by (simp add: drawnValue_def be_value_def)
next
  case (snoc b array)
  then have e: "drawnValue array = be_value array"
    by simp
  have "be_value (array @ [b]) < 256 ^ length (array @ [b])" "0 \<le> be_value (array @ [b])"
    using be_value_bounds [of "array @ [b]"] by simp_all
  moreover from snoc.prems have "(256::int) ^ length (array @ [b]) \<le> 256 ^ 6"
    by (intro power_increasing) simp_all
  ultimately have "\<bar>be_value (array @ [b])\<bar> \<le> 2 ^ 53"
    by simp
  from roundDouble_id [OF this] e show ?case
    by (simp add: drawnValue_snoc be_value_snoc)
qed

lemma rejected_exact:
  assumes "0 < rng" "0 \<le> maxValue" "maxValue \<le> 2 ^ 53"
  shows "rejected maxValue rng value = (value \<ge> maxValue - maxValue mod rng)"
proof -
  from assms(1) have "0 \<le> maxValue mod rng"
    by simp
  moreover from assms(2) have "maxValue mod rng \<le> maxValue"
    by (rule zmod_le_nonneg_dividend)
  ultimately have "\<bar>maxValue - maxValue mod rng\<bar> \<le> 2 ^ 53"
    using assms(3) by simp
  then show ?thesis
    by (simp add: rejected_def roundDouble_id)
qed

lemma safeBounds_small: "n \<le> 128 \<Longrightarrow> safeBounds 0 (int n - 1)"
  by (simp add: safeBounds_def)

text \<open>What safe bounds give: the range is exact and a draw takes at most 6 bytes.\<close>

lemma safeBounds_range:
  assumes "0 < mx - mn + 1" "safeBounds mn mx"
  shows "roundDouble (roundDouble (mx - mn) + 1) = mx - mn + 1"
    and "bytesNeeded (mx - mn + 1) \<le> 6"
    and "(256::int) ^ bytesNeeded (mx - mn + 1) \<le> 2 ^ 53"
proof -
  from assms have b: "0 \<le> mx - mn" "mx - mn < 2 ^ 48"
    by (simp_all add: safeBounds_def)
  then have "roundDouble (mx - mn) = mx - mn"
    by (intro roundDouble_id) simp
  moreover from b have "roundDouble (mx - mn + 1) = mx - mn + 1"
    by (intro roundDouble_id) simp
  ultimately show "roundDouble (roundDouble (mx - mn) + 1) = mx - mn + 1"
    by simp
  from b have "1 \<le> mx - mn + 1" "mx - mn + 1 \<le> 256 ^ 6"
    by simp_all
  then show k: "bytesNeeded (mx - mn + 1) \<le> 6"
    by (rule bytesNeeded_le)
  then have "(256::int) ^ bytesNeeded (mx - mn + 1) \<le> 256 ^ 6"
    by (intro power_increasing) simp_all
  then show "(256::int) ^ bytesNeeded (mx - mn + 1) \<le> 2 ^ 53"
    by simp
qed

subsection \<open>One step of getSecureRandomInt\<close>

lemma gsri_unfold:
  assumes pos: "0 < mx - mn + 1" and sb: "safeBounds mn mx"
  shows "getSecureRandomInt mn mx src =
     (if length src < bytesNeeded (mx - mn + 1) then Inl SourceExhausted
      else if rejected (256 ^ bytesNeeded (mx - mn + 1)) (mx - mn + 1)
                (be_value (take (bytesNeeded (mx - mn + 1)) src))
        then getSecureRandomInt mn mx (drop (bytesNeeded (mx - mn + 1)) src)
      else Inr (mn + be_value (take (bytesNeeded (mx - mn + 1)) src) mod (mx - mn + 1),
                drop (bytesNeeded (mx - mn + 1)) src))"
proof -
  let ?r = "mx - mn + 1"
  let ?k = "bytesNeeded ?r"
  note s = safeBounds_range [OF pos sb]
  have dv: "drawnValue (take ?k src) = be_value (take ?k src)"
    using s(2) by (intro drawnValue_exact) simp
  have "0 \<le> be_value (take ?k src) mod ?r" "be_value (take ?k src) mod ?r < ?r"
    using pos by (rule pos_mod_sign, rule pos_mod_bound)
  with sb have "\<bar>mn + be_value (take ?k src) mod ?r\<bar> \<le> 2 ^ 53"
    unfolding safeBounds_def by linarith
  then have res: "roundDouble (mn + be_value (take ?k src) mod ?r) =
      mn + be_value (take ?k src) mod ?r"
    by (rule roundDouble_id)
  from pos have ne: "?r \<noteq> 0" "\<not> ?r < 0"
    by simp_all
  show ?thesis
    by (subst getSecureRandomInt.simps) (simp only: Let_def s(1) dv res ne if_False)
qed

lemma gsri_short:
  "0 < mx - mn + 1 \<Longrightarrow> safeBounds mn mx \<Longrightarrow> length src < bytesNeeded (mx - mn + 1) \<Longrightarrow>
   getSecureRandomInt mn mx src = Inl SourceExhausted"
  by (subst gsri_unfold) simp_all

lemma gsri_reject:
  "0 < mx - mn + 1 \<Longrightarrow> safeBounds mn mx \<Longrightarrow> \<not> length src < bytesNeeded (mx - mn + 1) \<Longrightarrow>
   rejected (256 ^ bytesNeeded (mx - mn + 1)) (mx - mn + 1)
     (be_value (take (bytesNeeded (mx - mn + 1)) src)) \<Longrightarrow>
   getSecureRandomInt mn mx src = getSecureRandomInt mn mx (drop (bytesNeeded (mx - mn + 1)) src)"
  by (subst gsri_unfold) simp_all

lemma gsri_accept:
  "0 < mx - mn + 1 \<Longrightarrow> safeBounds mn mx \<Longrightarrow> \<not> length src < bytesNeeded (mx - mn + 1) \<Longrightarrow>
   \<not> rejected (256 ^ bytesNeeded (mx - mn + 1)) (mx - mn + 1)
     (be_value (take (bytesNeeded (mx - mn + 1)) src)) \<Longrightarrow>
   getSecureRandomInt mn mx src =
     Inr (mn + be_value (take (bytesNeeded (mx - mn + 1)) src) mod (mx - mn + 1),
          drop (bytesNeeded (mx - mn + 1)) src)"
  by (subst gsri_unfold) simp_all

lemma gsri_in_range:
  "mn \<le> mx \<Longrightarrow> safeBounds mn mx \<Longrightarrow> getSecureRandomInt mn mx src = Inr (v, src') \<Longrightarrow>
   mn \<le> v \<and> v \<le> mx"
proof (induction mn mx src rule: getSecureRandomInt.induct)
  case (1 mn mx src)
  let ?r = "mx - mn + 1"
  let ?k = "bytesNeeded ?r"
  from "1.prems"(1) have pos: "0 < ?r" by simp
  note sb = "1.prems"(2)
  note rg = safeBounds_range(1) [OF pos sb]
  show ?case
  proof (cases "length src < ?k")
    case True
    with "1.prems"(3) show ?thesis by (simp only: gsri_short [OF pos sb]) simp
  next
    case short: False
    show ?thesis
    proof (cases "rejected (256 ^ ?k) ?r (be_value (take ?k src))")
      case True
      from "1.prems"(3) have "getSecureRandomInt mn mx (drop ?k src) = Inr (v, src')"
        by (simp only: gsri_reject [OF pos sb short True])
      moreover have "rejected (256 ^ ?k) ?r (drawnValue (take ?k src))"
        using True safeBounds_range(2) [OF pos sb] by (simp add: drawnValue_exact)
      ultimately show ?thesis
        using "1.IH" [OF rg [symmetric]] pos short "1.prems"(1) sb by simp
    next
      case False
      from "1.prems"(3) have v: "v = mn + be_value (take ?k src) mod ?r"
        by (simp only: gsri_accept [OF pos sb short False]) simp
      from pos have "0 \<le> be_value (take ?k src) mod ?r" "be_value (take ?k src) mod ?r < ?r"
        by (rule pos_mod_sign, rule pos_mod_bound)
      with v show ?thesis by linarith
    qed
  qed
qed

lemma gsri_not_RangeError:
  "mn \<le> mx \<Longrightarrow> safeBounds mn mx \<Longrightarrow> getSecureRandomInt mn mx src \<noteq> Inl RangeError"
proof (induction mn mx src rule: getSecureRandomInt.induct)
  case (1 mn mx src)
  let ?r = "mx - mn + 1"
  let ?k = "bytesNeeded ?r"
  from "1.prems"(1) have pos: "0 < ?r" by simp
  note sb = "1.prems"(2)
  note rg = safeBounds_range(1) [OF pos sb]
  show ?case
  proof (cases "length src < ?k")
    case True
    then show ?thesis by (simp only: gsri_short [OF pos sb]) simp
  next
    case short: False
    show ?thesis
    proof (cases "rejected (256 ^ ?k) ?r (be_value (take ?k src))")
      case True
      then have "rejected (256 ^ ?k) ?r (drawnValue (take ?k src))"
        using safeBounds_range(2) [OF pos sb] by (simp add: drawnValue_exact)
      then have "getSecureRandomInt mn mx (drop ?k src) \<noteq> Inl RangeError"
        using "1.IH" [OF rg [symmetric]] pos short "1.prems"(1) sb by simp
      then show ?thesis
        by (simp only: gsri_reject [OF pos sb short True]) simp
    next
      case False
      show ?thesis
        by (simp only: gsri_accept [OF pos sb short False]) simp
    qed
  qed
qed

lemma gsri_low_byte:
  assumes r: "mn \<le> mx" "mx - mn < 128" and sb: "safeBounds mn mx"
    and src: "src \<noteq> []" and low: "uint (hd src) < 128"
  shows "\<exists>v. getSecureRandomInt mn mx src = Inr (v, drop (bytesNeeded (mx - mn + 1)) src)
           \<and> bytesNeeded (mx - mn + 1) \<le> 1"
proof (cases "mx = mn")
  case True
  have "\<not> rejected 1 1 0"
    by (simp add: rejected_exact)
  with True sb show ?thesis
    by (simp add: gsri_accept bytesNeeded_one be_value_def)
next
  case False
  let ?r = "mx - mn + 1"
  from False r have k: "bytesNeeded ?r = 1"
    by (intro bytesNeeded_small) simp_all
  from src obtain b bs where s: "src = b # bs" by (cases src) auto
  have pos: "0 < ?r" using r by simp
  then have "256 mod ?r < ?r" by (rule pos_mod_bound)
  with r low s pos have "\<not> rejected 256 ?r (uint b)"
    by (simp add: rejected_exact)
  with r k s sb show ?thesis
    by (simp add: gsri_accept be_value_def)
qed

subsection \<open>The character set and the alphabet\<close>

lemma foldl_remove1:
  "distinct cs \<Longrightarrow>
   set (foldl (\<lambda>acc c. remove1 c acc) cs xs) = set cs - set xs \<and>
   distinct (foldl (\<lambda>acc c. remove1 c acc) cs xs)"
  by (induction xs arbitrary: cs) auto

lemma length_foldl_remove1: "length (foldl (\<lambda>acc c. remove1 c acc) cs xs) \<le> length cs"
proof (induction xs arbitrary: cs)
  case Nil
  show ?case by simp
next
  case (Cons x xs)
  have "length (foldl (\<lambda>acc c. remove1 c acc) (remove1 x cs) xs) \<le> length (remove1 x cs)"
    by (rule Cons.IH)
  also have "\<dots> \<le> length cs"
    by (simp add: length_remove1)
  finally show ?case by simp
qed

lemma set_removeSimilar: "distinct cs \<Longrightarrow> set (removeSimilar cs) = set cs - set similarChars"
  by (simp add: removeSimilar_def foldl_remove1)

lemma length_removeSimilar: "length (removeSimilar cs) \<le> length cs"
  by (simp add: removeSimilar_def length_foldl_remove1)

lemma distinct_classes:
  "distinct (uppercaseChars @ lowercaseChars @ numberChars @ symbolChars)"
  by (simp add: uppercaseChars_def lowercaseChars_def numberChars_def symbolChars_def)

lemma class_members:
  "CHR ''A'' \<in> set uppercaseChars - set similarChars"
  "CHR ''a'' \<in> set lowercaseChars - set similarChars"
  "CHR ''2'' \<in> set numberChars - set similarChars"
  "CHR ''!'' \<in> set symbolChars - set similarChars"
  by (simp_all add: uppercaseChars_def lowercaseChars_def numberChars_def symbolChars_def
      similarChars_def)

lemma class_lengths:
  "length uppercaseChars = 26" "length lowercaseChars = 26" "length numberChars = 10"
  "length symbolChars = 26"
  by (simp_all add: uppercaseChars_def lowercaseChars_def numberChars_def symbolChars_def)

lemma distinct_c0: "distinct (c0 opts)"
  using distinct_classes by (auto simp add: c0_def)

lemma length_c0: "length (c0 opts) \<le> 88"
  by (simp add: c0_def class_lengths)

lemma charset_c0:
  "charset opts =
     (if (if excludeSimilar opts then removeSimilar (c0 opts) else c0 opts) = []
      then lowercaseChars @ numberChars
      else if excludeSimilar opts then removeSimilar (c0 opts) else c0 opts)"
  by (simp add: charset_def c0_def Let_def)

lemma charset_noflags:
  "\<not> uppercase opts \<Longrightarrow> \<not> lowercase opts \<Longrightarrow> \<not> numbers opts \<Longrightarrow> \<not> symbols opts \<Longrightarrow>
   charset opts = lowercaseChars @ numberChars"
  by (simp add: charset_c0 c0_def removeSimilar_def similarChars_def)

lemma c0_member: "\<not> (\<not> uppercase opts \<and> \<not> lowercase opts \<and> \<not> numbers opts \<and> \<not> symbols opts) \<Longrightarrow>
   \<exists>c. c \<in> set (c0 opts) \<and> c \<notin> set similarChars"
proof -
  assume "\<not> (\<not> uppercase opts \<and> \<not> lowercase opts \<and> \<not> numbers opts \<and> \<not> symbols opts)"
  then consider "uppercase opts" | "lowercase opts" | "numbers opts" | "symbols opts"
    by blast
  then show ?thesis
  proof cases
    case 1
    with class_members(1) have "CHR ''A'' \<in> set (c0 opts) \<and> CHR ''A'' \<notin> set similarChars"
      by (simp add: c0_def)
    then show ?thesis ..
  next
    case 2
    with class_members(2) have "CHR ''a'' \<in> set (c0 opts) \<and> CHR ''a'' \<notin> set similarChars"
      by (simp add: c0_def)
    then show ?thesis ..
  next
    case 3
    with class_members(3) have "CHR ''2'' \<in> set (c0 opts) \<and> CHR ''2'' \<notin> set similarChars"
      by (simp add: c0_def)
    then show ?thesis ..
  next
    case 4
    with class_members(4) have "CHR ''!'' \<in> set (c0 opts) \<and> CHR ''!'' \<notin> set similarChars"
      by (simp add: c0_def)
    then show ?thesis ..
  qed
qed

lemma set_charset: "set (charset opts) = alphabet opts"
proof (cases "\<not> uppercase opts \<and> \<not> lowercase opts \<and> \<not> numbers opts \<and> \<not> symbols opts")
  case True
  then show ?thesis
    by (simp add: charset_noflags alphabet_def)
next
  case False
  let ?c1 = "if excludeSimilar opts then removeSimilar (c0 opts) else c0 opts"
  have s0: "set (c0 opts) = (if uppercase opts then set uppercaseChars else {}) \<union>
                    (if lowercase opts then set lowercaseChars else {}) \<union>
                    (if numbers opts then set numberChars else {}) \<union>
                    (if symbols opts then set symbolChars else {})"
    by (simp add: c0_def Un_assoc)
  have s1: "set ?c1 = (if excludeSimilar opts then set (c0 opts) - set similarChars
                       else set (c0 opts))"
    by (simp add: set_removeSimilar distinct_c0)
  from c0_member [OF False] obtain c where "c \<in> set (c0 opts)" "c \<notin> set similarChars"
    by blast
  with s1 have "c \<in> set ?c1"
    by simp
  then have "?c1 \<noteq> []"
    by (cases ?c1) simp_all
  then have "charset opts = ?c1"
    by (simp only: charset_c0 if_False)
  then have "set (charset opts) = (if excludeSimilar opts then set (c0 opts) - set similarChars
                       else set (c0 opts))"
    using s1 by simp
  also have "\<dots> = alphabet opts"
    unfolding alphabet_def Let_def s0 using False by auto
  finally show ?thesis .
qed

lemma charset_nonempty: "charset opts \<noteq> []"
  by (simp add: charset_c0 lowercaseChars_def)

lemma length_charset: "length (charset opts) \<le> 88"
proof -
  have "length (removeSimilar (c0 opts)) \<le> 88"
    using length_removeSimilar [of "c0 opts"] length_c0 [of opts] by linarith
  then show ?thesis
    using length_c0 [of opts] by (simp add: charset_c0 class_lengths)
qed

subsection \<open>The draw loop\<close>

lemma charAt_str_in: "0 \<le> i \<Longrightarrow> i < int (length s) \<Longrightarrow> charAt_str s i = [s ! nat i]"
  by (simp add: charAt_str_def)

lemma charAt_str_gsri:
  assumes "s \<noteq> []" "length s \<le> 128"
    and "getSecureRandomInt 0 (int (length s) - 1) src = Inr (i, src')"
  shows "\<exists>c. charAt_str s i = [c] \<and> c \<in> set s"
proof -
  from assms(1) have "0 \<le> int (length s) - 1"
    by (cases s) simp_all
  from gsri_in_range [OF this safeBounds_small [OF assms(2)] assms(3)]
  have "0 \<le> i" "i < int (length s)"
    by simp_all
  then have "charAt_str s i = [s ! nat i]" "nat i < length s"
    by (simp_all add: charAt_str_def)
  then show ?thesis
    by simp
qed

lemma drawChars_result:
  "cs \<noteq> [] \<Longrightarrow> length cs \<le> 128 \<Longrightarrow>
   drawChars n cs password src = Inr (password', src') \<Longrightarrow>
   length password' = length password + n \<and> set password' \<subseteq> set password \<union> set cs"
proof (induction n arbitrary: password src)
  case 0
  then show ?case by simp
next
  case (Suc n)
  from Suc.prems(3) obtain i src1 where
    d: "getSecureRandomInt 0 (int (length cs) - 1) src = Inr (i, src1)"
    and r: "drawChars n cs (password @ charAt_str cs i) src1 = Inr (password', src')"
    by (auto split: sum.splits)
  from charAt_str_gsri [OF Suc.prems(1,2) d] obtain c where
    c: "charAt_str cs i = [c]" "c \<in> set cs"
    by blast
  from Suc.IH [OF Suc.prems(1,2) r] c show ?case
    by auto
qed

lemma drawChars_not_RangeError:
  "cs \<noteq> [] \<Longrightarrow> length cs \<le> 128 \<Longrightarrow> drawChars n cs password src \<noteq> Inl RangeError"
proof (induction n arbitrary: password src)
  case 0
  then show ?case by simp
next
  case (Suc n)
  from Suc.prems have "0 \<le> int (length cs) - 1"
    by (cases cs) simp_all
  from gsri_not_RangeError [OF this safeBounds_small [OF Suc.prems(2)]] Suc.IH [OF Suc.prems]
  show ?case
    by (auto split: sum.splits)
qed

lemma lowBytes_drop: "lowBytes src \<Longrightarrow> lowBytes (drop k src)"
  unfolding lowBytes_def list_all_iff by (meson in_set_dropD)

lemma lowBytes_hd: "lowBytes src \<Longrightarrow> src \<noteq> [] \<Longrightarrow> uint (hd src) < 128"
  by (cases src) (simp_all add: lowBytes_def word_less_def)

lemma gsri_lowBytes:
  assumes "0 < n" "n \<le> 128" "lowBytes src" "src \<noteq> []"
  shows "\<exists>v src'. getSecureRandomInt 0 (int n - 1) src = Inr (v, src') \<and> lowBytes src' \<and>
           length src \<le> length src' + 1"
proof -
  from assms have a: "(0::int) \<le> int n - 1" "int n - 1 - 0 < 128"
    by simp_all
  from gsri_low_byte [OF a safeBounds_small [OF assms(2)] assms(4) lowBytes_hd [OF assms(3,4)]]
  obtain v where v: "getSecureRandomInt 0 (int n - 1) src = Inr (v, drop (bytesNeeded (int n - 1 - 0 + 1)) src)"
    and k: "bytesNeeded (int n - 1 - 0 + 1) \<le> 1"
    by blast
  from k have "length src \<le> length (drop (bytesNeeded (int n - 1 - 0 + 1)) src) + 1"
    by simp
  with v lowBytes_drop [OF assms(3)] show ?thesis
    by blast
qed

lemma drawChars_progress:
  "cs \<noteq> [] \<Longrightarrow> length cs \<le> 128 \<Longrightarrow> lowBytes src \<Longrightarrow> n + m \<le> length src \<Longrightarrow>
   \<exists>password' src'. drawChars n cs password src = Inr (password', src') \<and> lowBytes src' \<and>
      m \<le> length src'"
proof (induction n arbitrary: password src)
  case 0
  then show ?case by simp
next
  case (Suc n)
  from Suc.prems have ne: "src \<noteq> []" and pos: "0 < length cs"
    by auto
  from gsri_lowBytes [OF pos Suc.prems(2,3) ne] obtain v src1 where
    g: "getSecureRandomInt 0 (int (length cs) - 1) src = Inr (v, src1)"
    and l: "lowBytes src1" and n: "length src \<le> length src1 + 1"
    by blast
  from n Suc.prems(4) have "n + m \<le> length src1"
    by simp
  from Suc.IH [OF Suc.prems(1,2) l this, of "password @ charAt_str cs v"] g show ?case
    by simp
qed

subsection \<open>The patch of one class and the loop over the classes\<close>

lemma replace_at:
  "0 \<le> p \<Longrightarrow> p < int (length pw) \<Longrightarrow>
   take (nat p) pw @ [c] @ drop (nat (p + 1)) pw = pw[nat p := c]"
  by (simp add: upd_conv_take_nth_drop nat_add_distrib)

lemma requiredSets_cases:
  "charSet \<in> set (requiredSets opts) \<Longrightarrow>
   (uppercase opts \<and> charSet = uppercaseChars) \<or> (lowercase opts \<and> charSet = lowercaseChars) \<or>
   (numbers opts \<and> charSet = numberChars) \<or> (symbols opts \<and> charSet = symbolChars)"
  by (auto simp add: requiredSets_def split: if_splits)

lemma requiredSets_props:
  assumes "charSet \<in> set (requiredSets opts)"
  shows "distinct charSet" and "length charSet \<le> 26" and "set charSet \<subseteq> set (c0 opts)"
proof -
  from distinct_classes have d: "distinct uppercaseChars" "distinct lowercaseChars"
    "distinct numberChars" "distinct symbolChars"
    by simp_all
  from requiredSets_cases [OF assms] d show "distinct charSet"
    by blast
  from requiredSets_cases [OF assms] class_lengths show "length charSet \<le> 26"
    by auto
  from requiredSets_cases [OF assms] show "set charSet \<subseteq> set (c0 opts)"
    by (auto simp add: c0_def)
qed

lemma alphabet_flags:
  "charSet \<in> set (requiredSets opts) \<Longrightarrow>
   alphabet opts = (if excludeSimilar opts then set (c0 opts) - set similarChars else set (c0 opts))"
  by (drule requiredSets_cases) (auto simp add: alphabet_def c0_def Let_def)

lemma validChars_alphabet:
  assumes "charSet \<in> set (requiredSets opts)"
  shows "set (if excludeSimilar opts then removeSimilar charSet else charSet) \<subseteq> alphabet opts"
proof -
  note p = requiredSets_props [OF assms]
  have "set (if excludeSimilar opts then removeSimilar charSet else charSet) =
        (if excludeSimilar opts then set charSet - set similarChars else set charSet)"
    by (simp add: set_removeSimilar p(1))
  also have "\<dots> \<subseteq> alphabet opts"
    unfolding alphabet_flags [OF assms] using p(3) by auto
  finally show ?thesis .
qed

text \<open>The patch of one class, when it happens: two draws and one replacement.\<close>

lemma patchCharType_cases:
  assumes "patchCharType opts charSet (password, src) = Inr (password', src')"
  shows "(password' = password \<and> src' = src) \<or>
     (\<exists>k src1 p. (if excludeSimilar opts then removeSimilar charSet else charSet) \<noteq> [] \<and>
        getSecureRandomInt 0
          (int (length (if excludeSimilar opts then removeSimilar charSet else charSet)) - 1) src
          = Inr (k, src1) \<and>
        getSecureRandomInt 0 (int (length password) - 1) src1 = Inr (p, src') \<and>
        password' = take (nat p) password @
          charAt_str (if excludeSimilar opts then removeSimilar charSet else charSet) k @
          drop (nat (p + 1)) password)"
  using assms unfolding patchCharType_def Let_def
  by (simp split: if_splits sum.splits prod.splits)

lemma patchCharType_result:
  assumes ne: "password \<noteq> []" and len: "length password \<le> 128"
    and cs: "charSet \<in> set (requiredSets opts)"
    and r: "patchCharType opts charSet (password, src) = Inr (password', src')"
  shows "length password' = length password \<and> set password' \<subseteq> set password \<union> alphabet opts"
proof -
  let ?v = "if excludeSimilar opts then removeSimilar charSet else charSet"
  from patchCharType_cases [OF r] show ?thesis
  proof
    assume "password' = password \<and> src' = src"
    then show ?thesis by auto
  next
    assume "\<exists>k src1 p. ?v \<noteq> [] \<and>
        getSecureRandomInt 0 (int (length ?v) - 1) src = Inr (k, src1) \<and>
        getSecureRandomInt 0 (int (length password) - 1) src1 = Inr (p, src') \<and>
        password' = take (nat p) password @ charAt_str ?v k @ drop (nat (p + 1)) password"
    then obtain k src1 p where v: "?v \<noteq> []"
      and g1: "getSecureRandomInt 0 (int (length ?v) - 1) src = Inr (k, src1)"
      and g2: "getSecureRandomInt 0 (int (length password) - 1) src1 = Inr (p, src')"
      and pw: "password' = take (nat p) password @ charAt_str ?v k @ drop (nat (p + 1)) password"
      by blast
    have "length ?v \<le> 128"
      using length_removeSimilar [of charSet] requiredSets_props(2) [OF cs] by simp
    from charAt_str_gsri [OF v this g1] obtain c where c: "charAt_str ?v k = [c]" "c \<in> set ?v"
      by blast
    from ne have "0 \<le> int (length password) - 1"
      by (cases password) simp_all
    from gsri_in_range [OF this safeBounds_small [OF len] g2]
    have p: "0 \<le> p" "p < int (length password)"
      by simp_all
    from pw c(1) have "password' = password[nat p := c]"
      by (simp only: replace_at [OF p])
    moreover from c(2) validChars_alphabet [OF cs] have "c \<in> alphabet opts"
      by blast
    ultimately show ?thesis
      using set_update_subset_insert [of password "nat p" c] by auto
  qed
qed

lemma patchCharType_error:
  assumes e: "patchCharType opts charSet (password, src) = Inl e" and ne: "password \<noteq> []"
    and len: "length password \<le> 128" "length charSet \<le> 128"
  shows "e = SourceExhausted"
proof -
  from e have "(\<exists>v. v \<noteq> [] \<and> length v \<le> length charSet \<and>
        getSecureRandomInt 0 (int (length v) - 1) src = Inl e) \<or>
      (\<exists>src1. getSecureRandomInt 0 (int (length password) - 1) src1 = Inl e)"
    unfolding patchCharType_def Let_def
    using length_removeSimilar [of charSet]
    by (auto split: if_splits sum.splits prod.splits)
  moreover have "getSecureRandomInt 0 (int (length v) - 1) src0 \<noteq> Inl RangeError"
    if "v \<noteq> []" "length v \<le> 128" for v :: string and src0
  proof -
    from that(1) have "0 \<le> int (length v) - 1"
      by (cases v) simp_all
    from gsri_not_RangeError [OF this safeBounds_small [OF that(2)]] show ?thesis .
  qed
  ultimately have "e \<noteq> RangeError"
    using ne len by (metis order_trans)
  then show ?thesis
    by (cases e) simp_all
qed

lemma patchCharType_progress:
  assumes ne: "password \<noteq> []" and len: "length password \<le> 128" "length charSet \<le> 128"
    and low: "lowBytes src" and src: "2 + m \<le> length src"
  shows "\<exists>password' src'. patchCharType opts charSet (password, src) = Inr (password', src') \<and>
     lowBytes src' \<and> m \<le> length src'"
proof -
  let ?v = "if excludeSimilar opts then removeSimilar charSet else charSet"
  let ?patch = "\<not> (excludeSimilar opts \<and> list_all (\<lambda>char. char \<in> set similarChars) charSet) \<and>
     \<not> list_ex (\<lambda>char. char \<in> set charSet) password \<and> length charSet > 0 \<and> length ?v > 0"
  show ?thesis
  proof (cases ?patch)
    case False
    then have "patchCharType opts charSet (password, src) = Inr (password, src)"
      unfolding patchCharType_def Let_def by auto
    with low src show ?thesis
      by simp
  next
    case True
    then have v: "0 < length ?v"
      by blast
    have "length ?v \<le> 128"
      using length_removeSimilar [of charSet] len(2) by simp
    from gsri_lowBytes [OF v this low] src obtain k src1 where
      g1: "getSecureRandomInt 0 (int (length ?v) - 1) src = Inr (k, src1)"
      and l1: "lowBytes src1" and n1: "length src \<le> length src1 + 1"
      by fastforce
    from ne have "0 < length password"
      by simp
    from gsri_lowBytes [OF this len(1) l1] n1 src obtain p src2 where
      g2: "getSecureRandomInt 0 (int (length password) - 1) src1 = Inr (p, src2)"
      and l2: "lowBytes src2" and n2: "length src1 \<le> length src2 + 1"
      by fastforce
    from True g1 g2 have "patchCharType opts charSet (password, src) =
        Inr (take (nat p) password @ charAt_str ?v k @ drop (nat (p + 1)) password, src2)"
      unfolding patchCharType_def Let_def by auto
    moreover from n1 n2 src have "m \<le> length src2"
      by linarith
    ultimately show ?thesis
      using l2 by blast
  qed
qed

lemma ensureLoop_result:
  "password \<noteq> [] \<Longrightarrow> length password \<le> 128 \<Longrightarrow> set sets \<subseteq> set (requiredSets opts) \<Longrightarrow>
   ensureLoop opts sets (password, src) = Inr (password', src') \<Longrightarrow>
   length password' = length password \<and> set password' \<subseteq> set password \<union> alphabet opts"
proof (induction sets arbitrary: password src)
  case Nil
  then show ?case by simp
next
  case (Cons charSet sets)
  from Cons.prems(4) obtain pw1 src1 where
    p: "patchCharType opts charSet (password, src) = Inr (pw1, src1)"
    and r: "ensureLoop opts sets (pw1, src1) = Inr (password', src')"
    by (auto split: sum.splits)
  from Cons.prems(3) have cs: "charSet \<in> set (requiredSets opts)"
    and sub: "set sets \<subseteq> set (requiredSets opts)"
    by simp_all
  from patchCharType_result [OF Cons.prems(1,2) cs p]
  have 1: "length pw1 = length password" "set pw1 \<subseteq> set password \<union> alphabet opts"
    by simp_all
  with Cons.prems(1,2) have "pw1 \<noteq> []" "length pw1 \<le> 128"
    by auto
  from Cons.IH [OF this sub r] 1 show ?case
    by auto
qed

lemma ensureLoop_error:
  "password \<noteq> [] \<Longrightarrow> length password \<le> 128 \<Longrightarrow> set sets \<subseteq> set (requiredSets opts) \<Longrightarrow>
   ensureLoop opts sets (password, src) = Inl e \<Longrightarrow> e = SourceExhausted"
proof (induction sets arbitrary: password src)
  case Nil
  then show ?case by simp
next
  case (Cons charSet sets)
  from Cons.prems(3) have cs: "charSet \<in> set (requiredSets opts)"
    and sub: "set sets \<subseteq> set (requiredSets opts)"
    by simp_all
  from requiredSets_props(2) [OF cs] have l: "length charSet \<le> 128"
    by simp
  show ?case
  proof (cases "patchCharType opts charSet (password, src)")
    case (Inl e')
    with Cons.prems(4) have "e' = e"
      by simp
    with Inl patchCharType_error [OF _ Cons.prems(1,2) l] show ?thesis
      by blast
  next
    case (Inr st)
    obtain pw1 src1 where st: "st = (pw1, src1)"
      by (cases st)
    from patchCharType_result [OF Cons.prems(1,2) cs Inr [unfolded st]] Cons.prems(1,2)
    have "pw1 \<noteq> []" "length pw1 \<le> 128"
      by auto
    from Cons.IH [OF this sub] Cons.prems(4) Inr st show ?thesis
      by simp
  qed
qed

lemma ensureLoop_progress:
  "password \<noteq> [] \<Longrightarrow> length password \<le> 128 \<Longrightarrow> set sets \<subseteq> set (requiredSets opts) \<Longrightarrow>
   lowBytes src \<Longrightarrow> 2 * length sets \<le> length src \<Longrightarrow>
   \<exists>password' src'. ensureLoop opts sets (password, src) = Inr (password', src')"
proof (induction sets arbitrary: password src)
  case Nil
  then show ?case by simp
next
  case (Cons charSet sets)
  from Cons.prems(3) have cs: "charSet \<in> set (requiredSets opts)"
    and sub: "set sets \<subseteq> set (requiredSets opts)"
    by simp_all
  from requiredSets_props(2) [OF cs] have l: "length charSet \<le> 128"
    by simp
  from Cons.prems(5) have "2 + 2 * length sets \<le> length src"
    by simp
  from patchCharType_progress [OF Cons.prems(1,2) l Cons.prems(4) this, of opts]
  obtain pw1 src1 where p: "patchCharType opts charSet (password, src) = Inr (pw1, src1)"
    and l1: "lowBytes src1" and n1: "2 * length sets \<le> length src1"
    by blast
  from patchCharType_result [OF Cons.prems(1,2) cs p] Cons.prems(1,2)
  have "pw1 \<noteq> []" "length pw1 \<le> 128"
    by auto
  from Cons.IH [OF this sub l1 n1] p show ?case
    by simp
qed

lemma length_requiredSets: "length (requiredSets opts) \<le> 4"
  by (simp add: requiredSets_def)

subsection \<open>generatePassword: length and alphabet\<close>

lemma validConfig_nat:
  "validConfig opts \<Longrightarrow> 8 \<le> nat (length_opt opts) \<and> nat (length_opt opts) \<le> 64 \<and>
     int (nat (length_opt opts)) = length_opt opts"
  unfolding validConfig_def by linarith

lemma charset_bound: "length (charset opts) \<le> 128"
  using length_charset [of opts] by simp

lemma drawn_password:
  assumes "drawChars n (charset opts) [] src = Inr (pw, src1)"
  shows "length pw = n \<and> set pw \<subseteq> alphabet opts"
  using drawChars_result [OF charset_nonempty charset_bound assms] by (simp add: set_charset)

lemma generatePassword_result:
  assumes n: "0 < length_opt opts" "length_opt opts \<le> 128"
    and g: "generatePassword opts src = Inr password"
  shows "int (length password) = length_opt opts \<and> set password \<subseteq> alphabet opts"
proof -
  let ?n = "nat (length_opt opts)"
  from g obtain pw src1 src2 where
    d: "drawChars ?n (charset opts) [] src = Inr (pw, src1)" and
    e: "ensureAllCharTypes opts pw (charset opts) src1 = Inr (password, src2)"
    by (auto simp add: generatePassword_def split: sum.splits)
  from drawn_password [OF d] n have "pw \<noteq> []" "length pw \<le> 128"
    by auto
  from ensureLoop_result [OF this subset_refl e [unfolded ensureAllCharTypes_def]]
    drawn_password [OF d] n
  show ?thesis
    by auto
qed

lemma generatePassword_error:
  assumes n: "0 < length_opt opts" "length_opt opts \<le> 128"
    and g: "generatePassword opts src = Inl e"
  shows "e = SourceExhausted"
proof (cases "drawChars (nat (length_opt opts)) (charset opts) [] src")
  case (Inl e')
  with g have "e' = e"
    by (simp add: generatePassword_def)
  with Inl drawChars_not_RangeError [OF charset_nonempty charset_bound,
      of "nat (length_opt opts)" opts "[]" src]
  show ?thesis
    by (cases e) simp_all
next
  case (Inr st)
  obtain pw src1 where st: "st = (pw, src1)"
    by (cases st)
  from drawn_password [OF Inr [unfolded st]] n have "pw \<noteq> []" "length pw \<le> 128"
    by auto
  from ensureLoop_error [OF this subset_refl, of opts src1 e] g Inr st show ?thesis
    by (auto simp add: generatePassword_def ensureAllCharTypes_def split: sum.splits)
qed

lemma generatePassword_progress:
  assumes n: "0 < length_opt opts" "length_opt opts \<le> 128"
    and low: "lowBytes src"
    and len: "nat (length_opt opts) + 2 * length (requiredSets opts) \<le> length src"
  shows "\<exists>password. generatePassword opts src = Inr password"
proof -
  let ?n = "nat (length_opt opts)"
  from length_charset [of opts] have "length (charset opts) \<le> 128"
    by simp
  from drawChars_progress [OF charset_nonempty this low len, of "[]"] obtain pw src1 where
    d: "drawChars ?n (charset opts) [] src = Inr (pw, src1)"
    and l1: "lowBytes src1" and n1: "2 * length (requiredSets opts) \<le> length src1"
    by blast
  from drawn_password [OF d] n have p: "pw \<noteq> []" "length pw \<le> 128"
    by auto
  from ensureLoop_progress [OF p subset_refl l1 n1] obtain pw' src2 where
    "ensureLoop opts (requiredSets opts) (pw, src1) = Inr (pw', src2)"
    by blast
  with d show ?thesis
    by (simp add: generatePassword_def ensureAllCharTypes_def)
qed

text \<open>
  C1. For a valid configuration (length 8 to 64, any flags) generatePassword never
  raises a RangeError; whenever it returns a password, the password has exactly
  \<open>length_opt\<close> characters and each of them belongs to the alphabet of the
  configuration; and it does return a password from every source that holds
  \<open>length_opt + 8\<close> bytes below 128 (no draw is sent back on such a byte).
\<close>

theorem generatePassword_length_alphabet:
  "validConfig opts \<Longrightarrow>
     generatePassword opts src \<noteq> Inl RangeError \<and>
     (\<forall>password. generatePassword opts src = Inr password \<longrightarrow>
        int (length password) = length_opt opts \<and> set password \<subseteq> alphabet opts) \<and>
     (lowBytes src \<and> nat (length_opt opts) + 8 \<le> length src \<longrightarrow>
        (\<exists>password. generatePassword opts src = Inr password))"
proof -
  assume v: "validConfig opts"
  from validConfig_nat [OF v] have n: "0 < length_opt opts" "length_opt opts \<le> 128"
    by linarith+
  have "generatePassword opts src \<noteq> Inl RangeError"
    using generatePassword_error [OF n, of src RangeError] by auto
  moreover have "\<exists>password. generatePassword opts src = Inr password"
    if "lowBytes src" "nat (length_opt opts) + 8 \<le> length src"
  proof (rule generatePassword_progress [OF n that(1)])
    from length_requiredSets [of opts] that(2)
    show "nat (length_opt opts) + 2 * length (requiredSets opts) \<le> length src"
      by simp
  qed
  ultimately show ?thesis
    using generatePassword_result [OF n, of src] by blast
qed

theorem generatePassword_length_alphabet_witness:
  "validConfig \<lparr>length_opt = 8, uppercase = True, lowercase = False, numbers = True,
      symbols = False, excludeSimilar = True\<rparr> \<and>
   lowBytes [7, 30, 12, 3, 25, 9, 14, 21, 0, 0, 0, 0, 0, 0, 0, 0] \<and>
   generatePassword \<lparr>length_opt = 8, uppercase = True, lowercase = False, numbers = True,
      symbols = False, excludeSimilar = True\<rparr>
     [7, 30, 12, 3, 25, 9, 14, 21, 0, 0, 0, 0, 0, 0, 0, 0] = Inr ''H8ND3KQX'' \<and>
   set ''H8ND3KQX'' \<subseteq> alphabet \<lparr>length_opt = 8, uppercase = True, lowercase = False,
      numbers = True, symbols = False, excludeSimilar = True\<rparr>"
proof -
  let ?opts = "\<lparr>length_opt = 8, uppercase = True, lowercase = False, numbers = True,
      symbols = False, excludeSimilar = True\<rparr>"
  let ?src = "[7, 30, 12, 3, 25, 9, 14, 21, 0, 0, 0, 0, 0, 0, 0, 0] :: byte list"
  have v: "validConfig ?opts"
    by (simp add: validConfig_def)
  have l: "lowBytes ?src"
    by (simp add: lowBytes_def)
  have g: "generatePassword ?opts ?src = Inr ''H8ND3KQX''"
    by code_simp
  from generatePassword_length_alphabet [OF v, of ?src] g v l show ?thesis
    by simp
qed

subsection \<open>generatePassword: no class selected\<close>

lemma requiredSets_noflags:
  "\<not> uppercase opts \<Longrightarrow> \<not> lowercase opts \<Longrightarrow> \<not> numbers opts \<Longrightarrow> \<not> symbols opts \<Longrightarrow>
   requiredSets opts = []"
  by (simp add: requiredSets_def)

text \<open>
  C9. With a valid length and the four include-flags false, the character set is the
  fallback (lowercase letters and digits); generatePassword raises no RangeError,
  every password it returns has \<open>length_opt\<close> characters, all of the fallback
  alphabet, and it returns one from every source of \<open>length_opt\<close> bytes below 128.
\<close>

theorem generatePassword_fallback:
  "validConfig opts \<Longrightarrow>
   \<not> uppercase opts \<and> \<not> lowercase opts \<and> \<not> numbers opts \<and> \<not> symbols opts \<Longrightarrow>
     charset opts = lowercaseChars @ numberChars \<and>
     generatePassword opts src \<noteq> Inl RangeError \<and>
     (\<forall>password. generatePassword opts src = Inr password \<longrightarrow>
        int (length password) = length_opt opts \<and>
        set password \<subseteq> set (lowercaseChars @ numberChars)) \<and>
     (lowBytes src \<and> nat (length_opt opts) \<le> length src \<longrightarrow>
        (\<exists>password. generatePassword opts src = Inr password))"
proof -
  assume v: "validConfig opts"
    and f: "\<not> uppercase opts \<and> \<not> lowercase opts \<and> \<not> numbers opts \<and> \<not> symbols opts"
  from validConfig_nat [OF v] have n: "0 < length_opt opts" "length_opt opts \<le> 128"
    by linarith+
  from f have cs: "charset opts = lowercaseChars @ numberChars"
    by (simp add: charset_noflags)
  from f have a: "alphabet opts = set (lowercaseChars @ numberChars)"
    by (simp add: alphabet_def)
  from f have r: "requiredSets opts = []"
    by (simp add: requiredSets_noflags)
  have "generatePassword opts src \<noteq> Inl RangeError"
    using generatePassword_error [OF n, of src RangeError] by auto
  moreover have "\<exists>password. generatePassword opts src = Inr password"
    if "lowBytes src" "nat (length_opt opts) \<le> length src"
    using generatePassword_progress [OF n that(1)] that(2) r by simp
  ultimately show ?thesis
    using generatePassword_result [OF n, of src] cs a by blast
qed

theorem generatePassword_fallback_witness:
  "validConfig \<lparr>length_opt = 8, uppercase = False, lowercase = False, numbers = False,
      symbols = False, excludeSimilar = True\<rparr> \<and>
   lowBytes [11, 26, 15, 7, 27, 4, 33, 19] \<and>
   generatePassword \<lparr>length_opt = 8, uppercase = False, lowercase = False, numbers = False,
      symbols = False, excludeSimilar = True\<rparr> [11, 26, 15, 7, 27, 4, 33, 19]
     = Inr ''l0ph1e7t'' \<and>
   set ''l0ph1e7t'' \<subseteq> set (lowercaseChars @ numberChars)"
proof -
  let ?opts = "\<lparr>length_opt = 8, uppercase = False, lowercase = False, numbers = False,
      symbols = False, excludeSimilar = True\<rparr>"
  let ?src = "[11, 26, 15, 7, 27, 4, 33, 19] :: byte list"
  have v: "validConfig ?opts"
    by (simp add: validConfig_def)
  have f: "\<not> uppercase ?opts \<and> \<not> lowercase ?opts \<and> \<not> numbers ?opts \<and> \<not> symbols ?opts"
    by simp
  have l: "lowBytes ?src"
    by (simp add: lowBytes_def)
  have g: "generatePassword ?opts ?src = Inr ''l0ph1e7t''"
    by code_simp
  from generatePassword_fallback [OF v f, of ?src] g v l show ?thesis
    by simp
qed

subsection \<open>generatePassword: a length of zero or below\<close>

lemma gsri_empty_range: "getSecureRandomInt 0 (- 1) src = Inl RangeError"
  by (subst getSecureRandomInt.simps) (simp add: roundDouble_id)

lemma validChars_nonempty:
  assumes "charSet \<in> set (requiredSets opts)"
  shows "(if excludeSimilar opts then removeSimilar charSet else charSet) \<noteq> []"
    and "\<not> list_all (\<lambda>char. char \<in> set similarChars) charSet"
proof -
  from requiredSets_cases [OF assms] class_members
  obtain c where c: "c \<in> set charSet" "c \<notin> set similarChars"
    by blast
  then have "c \<in> set (if excludeSimilar opts then removeSimilar charSet else charSet)"
    by (simp add: set_removeSimilar requiredSets_props(1) [OF assms])
  then show "(if excludeSimilar opts then removeSimilar charSet else charSet) \<noteq> []"
    by auto
  from c show "\<not> list_all (\<lambda>char. char \<in> set similarChars) charSet"
    by (auto simp add: list_all_iff)
qed

lemma patchCharType_empty:
  assumes cs: "charSet \<in> set (requiredSets opts)"
  shows "patchCharType opts charSet ([], src) = Inl RangeError \<or>
         patchCharType opts charSet ([], src) = Inl SourceExhausted"
    and "src \<noteq> [] \<Longrightarrow> hd src < 128 \<Longrightarrow> patchCharType opts charSet ([], src) = Inl RangeError"
proof -
  let ?v = "if excludeSimilar opts then removeSimilar charSet else charSet"
  note v = validChars_nonempty [OF cs]
  from v(1) length_removeSimilar [of charSet] have c: "charSet \<noteq> []"
    by (auto split: if_splits)
  have p: "patchCharType opts charSet ([], src) =
     (case getSecureRandomInt 0 (int (length ?v) - 1) src of
        Inl e \<Rightarrow> Inl e
      | Inr (k, src1) \<Rightarrow> Inl RangeError)"
    unfolding patchCharType_def Let_def using v c
    by (auto simp add: gsri_empty_range split: sum.splits)
  show "patchCharType opts charSet ([], src) = Inl RangeError \<or>
         patchCharType opts charSet ([], src) = Inl SourceExhausted"
    unfolding p by (auto split: sum.splits intro: error.exhaust)
  assume s: "src \<noteq> []" "hd src < 128"
  from v(1) have pos: "0 < length ?v"
    by simp
  have "length ?v \<le> 128"
    using length_removeSimilar [of charSet] requiredSets_props(2) [OF cs] by simp
  moreover from s have "lowBytes [hd src]"
    by (simp add: lowBytes_def)
  have "(0::int) \<le> int (length ?v) - 1" "int (length ?v) - 1 - 0 < 128"
    using pos calculation by simp_all
  have "safeBounds 0 (int (length ?v) - 1)"
    using calculation by (intro safeBounds_small)
  from gsri_low_byte [OF \<open>0 \<le> int (length ?v) - 1\<close> \<open>int (length ?v) - 1 - 0 < 128\<close>
      this s(1)] s(2) obtain k src1 where
    "getSecureRandomInt 0 (int (length ?v) - 1) src = Inr (k, src1)"
    by (auto simp add: word_less_def)
  then show "patchCharType opts charSet ([], src) = Inl RangeError"
    unfolding p by simp
qed

text \<open>
  C8, as amended. For a length of zero or below, generatePassword has no
  ConfigurationError to raise. With the four include-flags false it returns the empty
  string. With any include-flag true it returns no password: the patch of the first
  required class asks for a position in the empty password,
  \<^verbatim>\<open>getSecureRandomInt(0, -1)\<close>, which raises a RangeError (as soon as the draw of the
  replacement character, which comes first, has been accepted).
\<close>

theorem generatePassword_nonpositive_length:
  "length_opt opts \<le> 0 \<Longrightarrow>
     (\<not> uppercase opts \<and> \<not> lowercase opts \<and> \<not> numbers opts \<and> \<not> symbols opts \<longrightarrow>
        generatePassword opts src = Inr []) \<and>
     (uppercase opts \<or> lowercase opts \<or> numbers opts \<or> symbols opts \<longrightarrow>
        (generatePassword opts src = Inl RangeError \<or>
         generatePassword opts src = Inl SourceExhausted) \<and>
        (src \<noteq> [] \<and> hd src < 128 \<longrightarrow> generatePassword opts src = Inl RangeError))"
proof -
  assume "length_opt opts \<le> 0"
  then have g: "generatePassword opts src =
      (case ensureLoop opts (requiredSets opts) ([], src) of
         Inl e \<Rightarrow> Inl e | Inr (password', src'') \<Rightarrow> Inr password')"
    by (simp add: generatePassword_def ensureAllCharTypes_def)
  have 1: "generatePassword opts src = Inr []"
    if "\<not> uppercase opts \<and> \<not> lowercase opts \<and> \<not> numbers opts \<and> \<not> symbols opts"
    using that by (simp add: g requiredSets_noflags)
  have 2: "(generatePassword opts src = Inl RangeError \<or>
         generatePassword opts src = Inl SourceExhausted) \<and>
        (src \<noteq> [] \<and> hd src < 128 \<longrightarrow> generatePassword opts src = Inl RangeError)"
    if "uppercase opts \<or> lowercase opts \<or> numbers opts \<or> symbols opts"
  proof -
    from that obtain charSet sets where r: "requiredSets opts = charSet # sets"
      by (cases "requiredSets opts") (auto simp add: requiredSets_def split: if_splits)
    then have "charSet \<in> set (requiredSets opts)"
      by simp
    from patchCharType_empty [OF this, of src] show ?thesis
      by (auto simp add: g r)
  qed
  from 1 2 show ?thesis
    by blast
qed

theorem generatePassword_nonpositive_length_witness:
  "length_opt \<lparr>length_opt = 0, uppercase = True, lowercase = True, numbers = True,
      symbols = True, excludeSimilar = False\<rparr> \<le> 0 \<and>
   generatePassword \<lparr>length_opt = 0, uppercase = True, lowercase = True, numbers = True,
      symbols = True, excludeSimilar = False\<rparr> [5, 9] = Inl RangeError \<and>
   length_opt \<lparr>length_opt = - 3, uppercase = False, lowercase = False, numbers = False,
      symbols = False, excludeSimilar = False\<rparr> \<le> 0 \<and>
   generatePassword \<lparr>length_opt = - 3, uppercase = False, lowercase = False, numbers = False,
      symbols = False, excludeSimilar = False\<rparr> [5, 9] = Inr []"
  using generatePassword_nonpositive_length [of "\<lparr>length_opt = 0, uppercase = True,
      lowercase = True, numbers = True, symbols = True, excludeSimilar = False\<rparr>" "[5, 9]"]
    generatePassword_nonpositive_length [of "\<lparr>length_opt = - 3, uppercase = False,
      lowercase = False, numbers = False, symbols = False, excludeSimilar = False\<rparr>" "[5, 9]"]
  by simp

text \<open>
  C8, as stated, fails: for the length 0 and no include-flag, generatePassword returns
  the empty string, and no error.
\<close>

theorem generatePassword_nonpositive_length_counterexample:
  "length_opt \<lparr>length_opt = 0, uppercase = False, lowercase = False, numbers = False,
      symbols = False, excludeSimilar = False\<rparr> \<le> 0 \<and>
   generatePassword \<lparr>length_opt = 0, uppercase = False, lowercase = False, numbers = False,
      symbols = False, excludeSimilar = False\<rparr> [17, 42] = Inr []"
  by (simp add: generatePassword_def ensureAllCharTypes_def requiredSets_def)

subsection \<open>generatePassword: a patch over the representative of another class\<close>

text \<open>
  C2 fails on the code. All four classes are enabled and the length is 8. The draw is
  \<^verbatim>\<open>k7q2m9x4\<close>; the patch for the uppercase class writes \<^verbatim>\<open>Q\<close> at position 3; the
  patch for the symbols writes \<^verbatim>\<open>#\<close> at position 3 again, over the only uppercase
  letter. The password returned has no uppercase letter.
\<close>

theorem generatePassword_patch_overwritten:
  "validConfig \<lparr>length_opt = 8, uppercase = True, lowercase = True, numbers = True,
      symbols = True, excludeSimilar = False\<rparr> \<and>
   drawChars 8 (charset \<lparr>length_opt = 8, uppercase = True, lowercase = True, numbers = True,
      symbols = True, excludeSimilar = False\<rparr>) []
     [36, 59, 42, 54, 38, 61, 49, 56, 16, 3, 2, 3] = Inr (''k7q2m9x4'', [16, 3, 2, 3]) \<and>
   patchCharType \<lparr>length_opt = 8, uppercase = True, lowercase = True, numbers = True,
      symbols = True, excludeSimilar = False\<rparr> uppercaseChars (''k7q2m9x4'', [16, 3, 2, 3])
     = Inr (''k7qQm9x4'', [2, 3]) \<and>
   generatePassword \<lparr>length_opt = 8, uppercase = True, lowercase = True, numbers = True,
      symbols = True, excludeSimilar = False\<rparr>
     [36, 59, 42, 54, 38, 61, 49, 56, 16, 3, 2, 3] = Inr ''k7q#m9x4'' \<and>
   \<not> list_ex (\<lambda>char. char \<in> set uppercaseChars) ''k7q#m9x4''"
  by code_simp

subsection \<open>getSecureRandomInt: range and uniformity\<close>

lemma be_value_inj:
  "length xs = length ys \<Longrightarrow> be_value xs = be_value ys \<Longrightarrow> xs = ys"
proof (induction xs arbitrary: ys rule: rev_induct)
  case Nil
  then show ?case by simp
next
  case (snoc x xs)
  from snoc.prems(1) obtain y ys' where ys: "ys = ys' @ [y]"
    by (cases ys rule: rev_cases) auto
  have bx: "0 \<le> uint x" "uint x < 256" and "by": "0 \<le> uint y" "uint y < 256"
    using uint_bounded [of x] uint_bounded [of y] by simp_all
  from snoc.prems(2) ys have e: "be_value xs * 256 + uint x = be_value ys' * 256 + uint y"
    by (simp add: be_value_snoc)
  from bx "by" have "(be_value xs * 256 + uint x) div 256 = be_value xs"
    "(be_value ys' * 256 + uint y) div 256 = be_value ys'"
    by simp_all
  with e have "be_value xs = be_value ys'"
    by simp
  with e have "be_value xs = be_value ys'" "uint x = uint y"
    by simp_all
  with snoc.IH [of ys'] snoc.prems(1) ys show ?case
    by (simp add: word_uint_eq_iff)
qed

lemma card_byte_lists: "card {array :: byte list. length array = k} = 256 ^ k"
  using card_lists_length_eq [of "UNIV :: byte set" k] by (simp add: card_word)

lemma finite_byte_lists: "finite {array :: byte list. length array = k}"
  using finite_lists_length_eq [of "UNIV :: byte set" k] by simp

lemma be_value_image: "be_value ` {array. length array = k} = {0 ..< 256 ^ k}"
proof (rule card_subset_eq)
  show "finite {0 ..< (256::int) ^ k}"
    by simp
  show "be_value ` {array. length array = k} \<subseteq> {0 ..< 256 ^ k}"
    using be_value_bounds by auto
  have "inj_on be_value {array. length array = k}"
    by (rule inj_onI) (simp add: be_value_inj)
  then have "card (be_value ` {array. length array = k}) = 256 ^ k"
    by (simp add: card_image card_byte_lists)
  then show "card (be_value ` {array. length array = k}) = card {0 ..< (256::int) ^ k}"
    by simp
qed

lemma card_be_value_preimage:
  assumes "V \<subseteq> {0 ..< 256 ^ k}"
  shows "card {array. length array = k \<and> be_value array \<in> V} = card V"
proof -
  have inj: "inj_on be_value {array. length array = k \<and> be_value array \<in> V}"
    by (rule inj_onI) (simp add: be_value_inj)
  have "be_value ` {array. length array = k \<and> be_value array \<in> V} = V"
  proof
    show "be_value ` {array. length array = k \<and> be_value array \<in> V} \<subseteq> V"
      by auto
    show "V \<subseteq> be_value ` {array. length array = k \<and> be_value array \<in> V}"
    proof
      fix v assume v: "v \<in> V"
      with assms have "v \<in> be_value ` {array. length array = k}"
        unfolding be_value_image by blast
      with v show "v \<in> be_value ` {array. length array = k \<and> be_value array \<in> V}"
        by auto
    qed
  qed
  with card_image [OF inj] show ?thesis
    by simp
qed

lemma card_residue:
  assumes "0 < rng" "0 \<le> r" "r < rng" "0 \<le> q"
  shows "card {v :: int. 0 \<le> v \<and> v < q * rng \<and> v mod rng = r} = nat q"
proof -
  have "{v :: int. 0 \<le> v \<and> v < q * rng \<and> v mod rng = r} = (\<lambda>i. i * rng + r) ` {0 ..< q}"
  proof (rule set_eqI, rule iffI)
    fix v assume "v \<in> {v. 0 \<le> v \<and> v < q * rng \<and> v mod rng = r}"
    then have v: "0 \<le> v" "v < q * rng" "v mod rng = r"
      by simp_all
    have "v = (v div rng) * rng + v mod rng"
      by simp
    with v(3) have eq: "v = (v div rng) * rng + r"
      by simp
    have "0 \<le> v div rng"
      using v(1) assms(1) by (simp add: pos_imp_zdiv_nonneg_iff)
    moreover have "v div rng < q"
    proof (rule ccontr)
      assume "\<not> v div rng < q"
      then have "q * rng \<le> (v div rng) * rng"
        using assms(1) by (simp add: mult_right_mono)
      also have "\<dots> \<le> v"
        using eq assms(2) by linarith
      finally show False
        using v(2) by simp
    qed
    ultimately show "v \<in> (\<lambda>i. i * rng + r) ` {0 ..< q}"
      using eq by auto
  next
    fix v assume "v \<in> (\<lambda>i. i * rng + r) ` {0 ..< q}"
    then obtain i where i: "0 \<le> i" "i < q" "v = i * rng + r"
      by auto
    have "i * rng + r < q * rng"
    proof -
      from i(2) have "i + 1 \<le> q" by simp
      then have "(i + 1) * rng \<le> q * rng"
        using assms(1) by (simp add: mult_right_mono)
      with assms(3) show ?thesis
        by (simp add: algebra_simps)
    qed
    moreover have "0 \<le> i * rng + r"
      using i(1) assms by simp
    moreover have "(i * rng + r) mod rng = r"
      using assms by simp
    ultimately show "v \<in> {v. 0 \<le> v \<and> v < q * rng \<and> v mod rng = r}"
      using i(3) by simp
  qed
  moreover have "inj_on (\<lambda>i. i * rng + r) {0 ..< q}"
    using assms(1) by (auto intro: inj_onI)
  ultimately show ?thesis
    by (simp add: card_image)
qed

lemma two_powr_bytes: "(2::real) powr (8 * real n) = 256 ^ n"
proof -
  have "(2::real) powr (8 * real n) = 2 powr (real (8 * n))"
    by simp
  also have "\<dots> = 2 ^ (8 * n)"
    by (rule powr_realpow) simp
  also have "\<dots> = (2 ^ 8) ^ n"
    by (simp only: power_mult)
  finally show ?thesis
    by simp
qed

text \<open>
  \<open>bytesNeeded\<close> is the source's \<^verbatim>\<open>Math.ceil(Math.log2(range) / 8)\<close>, with logarithm
  and division on the reals.
\<close>

lemma bytesNeeded_log2:
  assumes "1 \<le> rng"
  shows "int (bytesNeeded rng) = \<lceil>log 2 (real_of_int rng) / 8\<rceil>"
proof -
  let ?k = "bytesNeeded rng"
  from assms have x: "0 < real_of_int rng"
    by simp
  from bytesNeeded_bounds [OF assms] have u: "rng \<le> 256 ^ ?k"
    and l: "0 < ?k \<longrightarrow> 256 ^ (?k - 1) < rng"
    by simp_all
  from u have "real_of_int rng \<le> 256 ^ ?k"
    by (metis of_int_le_iff of_int_numeral of_int_power)
  then have "log 2 (real_of_int rng) \<le> 8 * real ?k"
    using x by (simp add: log_le_iff two_powr_bytes)
  then have up: "log 2 (real_of_int rng) / 8 \<le> of_int (int ?k)"
    by simp
  have "8 * (real ?k - 1) < log 2 (real_of_int rng)"
  proof (cases ?k)
    case 0
    moreover from assms have "0 \<le> log 2 (real_of_int rng)"
      by simp
    ultimately show ?thesis
      by simp
  next
    case (Suc j)
    with l have "256 ^ j < rng"
      by simp
    then have "256 ^ j < real_of_int rng"
      by (metis of_int_less_iff of_int_numeral of_int_power)
    then have "8 * real j < log 2 (real_of_int rng)"
      using x by (simp add: less_log_iff two_powr_bytes)
    with Suc show ?thesis
      by simp
  qed
  then have lo: "of_int (int ?k) - 1 < log 2 (real_of_int rng) / 8"
    by simp
  from ceiling_unique [OF lo up] show ?thesis
    by simp
qed

lemma rejected_iff:
  assumes "0 < rng" "0 \<le> maxValue" "maxValue \<le> 2 ^ 53"
  shows "rejected maxValue rng v \<longleftrightarrow> v \<ge> (maxValue div rng) * rng"
  by (simp add: rejected_exact [OF assms] minus_mod_eq_div_mult)

lemma gsri_chunk:
  assumes "mn \<le> mx" "safeBounds mn mx" "length array = bytesNeeded (mx - mn + 1)"
  shows "getSecureRandomInt mn mx (array @ rest) =
     (if rejected (256 ^ bytesNeeded (mx - mn + 1)) (mx - mn + 1) (be_value array)
      then getSecureRandomInt mn mx rest
      else Inr (mn + be_value array mod (mx - mn + 1), rest))"
proof -
  let ?r = "mx - mn + 1"
  let ?k = "bytesNeeded ?r"
  from assms(1) have pos: "0 < ?r"
    by simp
  note sb = assms(2)
  from assms(3) have len: "\<not> length (array @ rest) < ?k"
    and t: "take ?k (array @ rest) = array" and d: "drop ?k (array @ rest) = rest"
    by simp_all
  show ?thesis
  proof (cases "rejected (256 ^ ?k) ?r (be_value array)")
    case True
    then have "rejected (256 ^ ?k) ?r (be_value (take ?k (array @ rest)))"
      unfolding t .
    from gsri_reject [OF pos sb len this] True show ?thesis
      by (simp only: d if_True)
  next
    case False
    then have "\<not> rejected (256 ^ ?k) ?r (be_value (take ?k (array @ rest)))"
      unfolding t .
    from gsri_accept [OF pos sb len this] False show ?thesis
      by (simp only: t d if_False)
  qed
qed

lemma card_accepted:
  assumes "mn \<le> mx" "safeBounds mn mx" "mn \<le> r" "r \<le> mx"
  shows "card {array. length array = bytesNeeded (mx - mn + 1) \<and>
        \<not> rejected (256 ^ bytesNeeded (mx - mn + 1)) (mx - mn + 1) (be_value array) \<and>
        mn + be_value array mod (mx - mn + 1) = r}
     = nat (256 ^ bytesNeeded (mx - mn + 1) div (mx - mn + 1))"
proof -
  let ?r = "mx - mn + 1"
  let ?k = "bytesNeeded ?r"
  let ?q = "256 ^ ?k div ?r"
  let ?V = "{v. 0 \<le> v \<and> v < ?q * ?r \<and> v mod ?r = r - mn}"
  from assms have pos: "0 < ?r" and res: "0 \<le> r - mn" "r - mn < ?r"
    by simp_all
  note rj = rejected_iff [OF pos _ safeBounds_range(3) [OF pos assms(2)]]
  have q: "0 \<le> ?q"
    using pos by (simp add: pos_imp_zdiv_nonneg_iff)
  have "256 ^ ?k = ?q * ?r + 256 ^ ?k mod ?r"
    by (rule div_mult_mod_eq [symmetric])
  moreover have "0 \<le> 256 ^ ?k mod ?r"
    using pos by (rule pos_mod_sign)
  ultimately have "?q * ?r \<le> 256 ^ ?k"
    by linarith
  then have sub: "?V \<subseteq> {0 ..< 256 ^ ?k}"
    by auto
  have "{array. length array = ?k \<and> \<not> rejected (256 ^ ?k) ?r (be_value array) \<and>
        mn + be_value array mod ?r = r}
      = {array. length array = ?k \<and> be_value array \<in> ?V}"
    using be_value_bounds by (auto simp add: rj)
  then show ?thesis
    using card_be_value_preimage [OF sub] card_residue [OF pos res q] by simp
qed

text \<open>
  C3, as amended. For safe integers \<open>min \<le> max\<close> with at most \<open>2 ^ 48\<close> values between
  them, with \<open>range = max - min + 1\<close>, \<open>bytesNeeded\<close> bytes a draw and
  \<open>maxValue = 256 ^ bytesNeeded\<close>: getSecureRandomInt raises no RangeError and every
  value it returns lies in \<open>[min, max]\<close>; the number of bytes is the source's
  \<open>\<lceil>log2 range / 8\<rceil>\<close>; the value the loop computes is the big-endian value of the
  bytes; a draw is rejected exactly when that value is at least
  \<open>\<lfloor>maxValue / range\<rfloor> * range\<close>; a rejected draw is followed by a new one on the rest of
  the source and an accepted draw returns \<open>min + value mod range\<close>; and each result of
  \<open>[min, max]\<close> comes from exactly \<open>\<lfloor>maxValue / range\<rfloor>\<close> accepted byte vectors, at least
  one.
\<close>

theorem getSecureRandomInt_uniform:
  "mn \<le> mx \<Longrightarrow> safeBounds mn mx \<Longrightarrow>
   (let rng = mx - mn + 1; k = bytesNeeded rng; maxValue = 256 ^ k in
      (\<forall>src. getSecureRandomInt mn mx src \<noteq> Inl RangeError) \<and>
      (\<forall>src v src'. getSecureRandomInt mn mx src = Inr (v, src') \<longrightarrow> mn \<le> v \<and> v \<le> mx) \<and>
      int k = \<lceil>log 2 (real_of_int rng) / 8\<rceil> \<and>
      (\<forall>array. length array = k \<longrightarrow> drawnValue array = be_value array) \<and>
      (\<forall>value. rejected maxValue rng value \<longleftrightarrow> value \<ge> (maxValue div rng) * rng) \<and>
      (\<forall>array rest. length array = k \<longrightarrow>
         getSecureRandomInt mn mx (array @ rest) =
           (if rejected maxValue rng (drawnValue array) then getSecureRandomInt mn mx rest
            else Inr (mn + drawnValue array mod rng, rest))) \<and>
      (\<forall>r. mn \<le> r \<and> r \<le> mx \<longrightarrow>
         card {array. length array = k \<and> \<not> rejected maxValue rng (drawnValue array) \<and>
               mn + drawnValue array mod rng = r} = nat (maxValue div rng)) \<and>
      0 < maxValue div rng)"
proof -
  assume le: "mn \<le> mx" and sb: "safeBounds mn mx"
  let ?r = "mx - mn + 1"
  let ?k = "bytesNeeded ?r"
  from le have one: "1 \<le> ?r" and pos: "0 < ?r"
    by simp_all
  note s = safeBounds_range [OF pos sb]
  from bytesNeeded_bounds [OF one] have "?r \<le> 256 ^ ?k"
    by simp
  with one have q: "0 < 256 ^ ?k div ?r"
    by (simp add: pos_imp_zdiv_pos_iff)
  have dv: "drawnValue array = be_value array" if "length array = ?k" for array
    using that s(2) by (intro drawnValue_exact) simp
  have rj: "rejected (256 ^ ?k) ?r v \<longleftrightarrow> v \<ge> (256 ^ ?k div ?r) * ?r" for v
    by (rule rejected_iff [OF pos _ s(3)]) simp
  have step: "getSecureRandomInt mn mx (array @ rest) =
           (if rejected (256 ^ ?k) ?r (drawnValue array) then getSecureRandomInt mn mx rest
            else Inr (mn + drawnValue array mod ?r, rest))"
    if "length array = ?k" for array rest
    using gsri_chunk [OF le sb that] by (simp only: dv [OF that])
  have "{array. length array = ?k \<and> \<not> rejected (256 ^ ?k) ?r (drawnValue array) \<and>
               mn + drawnValue array mod ?r = r} =
        {array. length array = ?k \<and> \<not> rejected (256 ^ ?k) ?r (be_value array) \<and>
               mn + be_value array mod ?r = r}" for r
    using dv by auto
  then have cnt: "card {array. length array = ?k \<and> \<not> rejected (256 ^ ?k) ?r (drawnValue array) \<and>
               mn + drawnValue array mod ?r = r} = nat (256 ^ ?k div ?r)"
    if "mn \<le> r" "r \<le> mx" for r
    using card_accepted [OF le sb that] by simp
  from q dv rj step cnt gsri_not_RangeError [OF le sb] gsri_in_range [OF le sb]
    bytesNeeded_log2 [OF one]
  show ?thesis
    unfolding Let_def by blast
qed

theorem getSecureRandomInt_uniform_witness:
  "(0::int) \<le> 9 \<and> safeBounds 0 9 \<and>
   getSecureRandomInt 0 9 ([253] @ [47, 8]) = Inr (7, [8]) \<and>
   card {array. length array = 1 \<and> \<not> rejected 256 10 (drawnValue array) \<and>
         0 + drawnValue array mod 10 = 3} = 25"
proof -
  have k: "bytesNeeded 10 = 1"
    by (simp add: bytesNeeded_small)
  have r: "rejected 256 10 (drawnValue [253])" "\<not> rejected 256 10 (drawnValue [47])"
    by (simp_all add: rejected_exact drawnValue_def roundDouble_id)
  have le: "(0::int) \<le> 9"
    by simp
  have sb: "safeBounds 0 9"
    by (simp add: safeBounds_def)
  note u = getSecureRandomInt_uniform [OF le sb, unfolded Let_def]
  note step = u [THEN conjunct2, THEN conjunct2, THEN conjunct2, THEN conjunct2, THEN conjunct2,
    THEN conjunct1, rule_format]
  note count = u [THEN conjunct2, THEN conjunct2, THEN conjunct2, THEN conjunct2,
    THEN conjunct2, THEN conjunct2, THEN conjunct1, rule_format]
  have 1: "getSecureRandomInt 0 9 (array @ rest) =
           (if rejected 256 10 (drawnValue array) then getSecureRandomInt 0 9 rest
            else Inr (0 + drawnValue array mod 10, rest))" if "length array = 1" for array rest
    using step [of array rest] that by (simp add: k)
  have 2: "card {array. length array = 1 \<and> \<not> rejected 256 10 (drawnValue array) \<and>
               0 + drawnValue array mod 10 = 3} = nat (256 div 10)"
    using count [of 3] by (simp add: k)
  have "getSecureRandomInt 0 9 ([253] @ [47, 8]) = getSecureRandomInt 0 9 ([47] @ [8])"
    using 1 [of "[253]" "[47, 8]"] r by simp
  also have "\<dots> = Inr (7, [8])"
    using 1 [of "[47]" "[8]"] r by (simp add: drawnValue_def roundDouble_id)
  finally show ?thesis
    using 2 sb by simp
qed

text \<open>
  C3, as stated for every \<open>min \<le> max\<close>, fails. For \<^verbatim>\<open>getSecureRandomInt(0, 2 ^ 48)\<close> the
  range is \<open>2 ^ 48 + 1\<close> and a draw takes 7 bytes. The bytes 32, 0, 0, 0, 0, 0, 1 have
  the big-endian value \<open>2 ^ 53 + 1\<close>; the last sum of the loop is rounded to \<open>2 ^ 53\<close>,
  and the result is 281474976710625 where \<open>min + value mod range\<close> is 281474976710626.
  The bytes 32, 0, 0, 0, 0, 0, 0 give the same result.
\<close>

theorem getSecureRandomInt_uniform_counterexample:
  "bytesNeeded (281474976710656 - 0 + 1) = 7 \<and>
   be_value [32, 0, 0, 0, 0, 0, 1] = 9007199254740993 \<and>
   drawnValue [32, 0, 0, 0, 0, 0, 1] = 9007199254740992 \<and>
   \<not> rejected (256 ^ 7) 281474976710657 (drawnValue [32, 0, 0, 0, 0, 0, 1]) \<and>
   getSecureRandomInt 0 281474976710656 [32, 0, 0, 0, 0, 0, 1] = Inr (281474976710625, []) \<and>
   0 + be_value [32, 0, 0, 0, 0, 0, 1] mod 281474976710657 = 281474976710626 \<and>
   getSecureRandomInt 0 281474976710656 [32, 0, 0, 0, 0, 0, 0] = Inr (281474976710625, [])"
  by code_simp

section \<open>Properties of the analyzer\<close>

subsection \<open>Strength levels and standards\<close>

text \<open>
  C6. For an entropy \<open>e \<ge> 0\<close> the strength level is given by half-open intervals:
  VERY_WEAK below 30, WEAK from 30 and below 50, MEDIUM from 50 and below 70, STRONG
  from 70 and below 90, VERY_STRONG from 90 on.
\<close>

theorem getStrengthLevel_tiers:
  "0 \<le> e \<Longrightarrow>
   getStrengthLevel e =
     (if e < 30 then VERY_WEAK
      else if e < 50 then WEAK
      else if e < 70 then MEDIUM
      else if e < 90 then STRONG
      else VERY_STRONG)"
  by (simp add: getStrengthLevel_def STRENGTH_LEVELS_def inRange_def VERY_WEAK_def WEAK_def
      MEDIUM_def STRONG_def VERY_STRONG_def)

theorem getStrengthLevel_tiers_witness:
  "(0::real) \<le> 50 \<and> getStrengthLevel 50 = MEDIUM \<and> label (getStrengthLevel 50) = ''Medium'' \<and>
   (0::real) \<le> 29.9 \<and> getStrengthLevel 29.9 = VERY_WEAK \<and>
   label (getStrengthLevel 29.9) = ''Very Weak''"
  using getStrengthLevel_tiers [of 50] getStrengthLevel_tiers [of "29.9"]
  by (simp add: MEDIUM_def VERY_WEAK_def)

text \<open>
  C7. The classes are detected in the password itself, and complexity is the presence
  of at least three of the four classes. The NIST entry is true iff the length is at
  least 8; the OWASP entry iff the length is at least 10 and complexity holds; the
  vendor entry iff the length is at least 8 and complexity holds.
\<close>

theorem checkSecurityStandards_thresholds:
  "NIST (checkSecurityStandards password opts) = (length password \<ge> 8) \<and>
   OWASP (checkSecurityStandards password opts) =
     (length password \<ge> 10 \<and> classesPresent password \<ge> 3) \<and>
   MICROSOFT (checkSecurityStandards password opts) =
     (length password \<ge> 8 \<and> classesPresent password \<ge> 3) \<and>
   securityStandardsCompliance (analyzePassword password opts) =
     checkSecurityStandards password opts"
proof -
  have "hasComplexity password = (classesPresent password \<ge> 3)"
    by (simp add: hasComplexity_def classesPresent_def hasUppercase_def hasLowercase_def
        hasNumbers_def hasSymbols_def)
  then show ?thesis
    by (simp add: checkSecurityStandards_def STANDARD_NIST_def STANDARD_OWASP_def
        STANDARD_MICROSOFT_def analyzePassword_def Let_def)
qed

subsection \<open>The penalty for sequential characters\<close>

lemma sequences_alphabet:
  "sequences ''abcdefghijklmnopqrstuvwxyz'' =
     [''abc'', ''bcd'', ''cde'', ''def'', ''efg'', ''fgh'', ''ghi'', ''hij'', ''ijk'', ''jkl'',
      ''klm'', ''lmn'', ''mno'', ''nop'', ''opq'', ''pqr'', ''qrs'', ''rst'', ''stu'', ''tuv'',
      ''uvw'', ''vwx'', ''wxy'', ''xyz'']"
  by code_simp

lemma sequences_numbers:
  "sequences ''0123456789'' =
     [''012'', ''123'', ''234'', ''345'', ''456'', ''567'', ''678'', ''789'']"
  by code_simp

lemma sequences_length:
  "\<forall>run \<in> set (sequences ''abcdefghijklmnopqrstuvwxyz''). length run = 3"
  "\<forall>run \<in> set (sequences ''0123456789''). length run = 3"
  by (simp_all add: sequences_alphabet sequences_numbers)

lemma sequences_distinct:
  "distinct (sequences ''abcdefghijklmnopqrstuvwxyz'' @ sequences ''0123456789'')"
  by (simp add: sequences_alphabet sequences_numbers)

lemma foldl_count:
  "\<forall>run \<in> set xs. length run = 3 \<Longrightarrow>
   foldl (\<lambda>sequentialCount sequence.
            if P sequence then sequentialCount + length sequence else sequentialCount) n xs
     = n + 3 * length (filter P xs)"
  by (induction xs arbitrary: n) simp_all

lemma checkForSequentialChars_count:
  "checkForSequentialChars password = 3 * length (matchedSequences password)"
  by (simp add: checkForSequentialChars_def matchedSequences_def Let_def
      foldl_count [OF sequences_length(1)] foldl_count [OF sequences_length(2)])

lemma calculateEntropy_penalties:
  "calculateEntropy password =
     max 0 (baseEntropy password -
       (repeatedPenalty password + sequentialPenalty password + commonPatternPenalty password))"
  by (simp add: calculateEntropy_def Let_def)

text \<open>
  C4, as amended. checkForSequentialChars adds 3, the length of the run, for each
  ascending 3-character run of the alphabet (letters without case) or of the digits
  that occurs in the password, each run once; calculateEntropy subtracts 0.8 times
  that count, which is 2.4 for each such run. Overlapping runs are each counted.
\<close>

theorem sequentialPenalty_per_run:
  "checkForSequentialChars password = 3 * length (matchedSequences password) \<and>
   sequentialPenalty password = 2.4 * real (length (matchedSequences password)) \<and>
   distinct (matchedSequences password) \<and>
   calculateEntropy password =
     max 0 (baseEntropy password -
       (repeatedPenalty password + sequentialPenalty password + commonPatternPenalty password))"
proof -
  have "distinct (matchedSequences password)"
    using sequences_distinct unfolding matchedSequences_def
    by (simp only: distinct_append distinct_filter set_filter) blast
  then show ?thesis
    by (simp add: checkForSequentialChars_count sequentialPenalty_def
        calculateEntropy_penalties)
qed

text \<open>
  C4, as stated, fails: \<^verbatim>\<open>abc\<close> holds one ascending run, and the penalty is 2.4, not
  0.8. In \<^verbatim>\<open>abcd\<close> the two overlapping runs cost 4.8.
\<close>

theorem sequentialPenalty_counterexample:
  "matchedSequences ''abc'' = [''abc''] \<and>
   checkForSequentialChars ''abc'' = 3 \<and>
   sequentialPenalty ''abc'' = 2.4 \<and>
   sequentialPenalty ''abc'' \<noteq> 0.8 * real (length (matchedSequences ''abc''))"
proof -
  have m: "matchedSequences ''abc'' = [''abc'']"
    by code_simp
  have "checkForSequentialChars ''abc'' = 3"
    by (simp add: checkForSequentialChars_count m)
  with m show ?thesis
    by (simp add: sequentialPenalty_def)
qed

subsection \<open>The penalty for repeated characters\<close>

lemma concat_runs: "concat (runs s) = s"
  by (induction s rule: runs.induct) simp_all

lemma matchRepeated_skip:
  "isLineTerminator c \<Longrightarrow> matchRepeated (c # cs) = matchRepeated (dropWhile (\<lambda>x. x = c) cs)"
  by (induction cs) simp_all

lemma matchRepeated_runs:
  "matchRepeated s = filter (\<lambda>r. 2 \<le> length r \<and> \<not> isLineTerminator (hd r)) (runs s)"
proof (induction s rule: runs.induct)
  case 1
  show ?case by simp
next
  case (2 c cs)
  show ?case
  proof (cases "takeWhile (\<lambda>x. x = c) cs = []")
    case True
    then have "dropWhile (\<lambda>x. x = c) cs = cs"
      by (cases cs) (auto split: if_splits)
    with True 2 show ?thesis
      by simp
  next
    case False
    then have l: "2 \<le> length (c # takeWhile (\<lambda>x. x = c) cs)"
      by (cases "takeWhile (\<lambda>x. x = c) cs") simp_all
    show ?thesis
    proof (cases "isLineTerminator c")
      case True
      with 2 show ?thesis
        by (simp only: matchRepeated_skip runs.simps filter.simps list.sel) simp
    next
      case notLT: False
      with False 2 l show ?thesis
        by simp
    qed
  qed
qed

lemma foldl_lengths:
  "foldl (\<lambda>total m. total + int (length m) - 1) n ms = n + (\<Sum>m\<leftarrow>ms. int (length m) - 1)"
  by (induction ms arbitrary: n) simp_all

lemma half_lengths:
  "real_of_int (\<Sum>m\<leftarrow>ms. int (length m) - 1) * 0.5 = (\<Sum>m\<leftarrow>ms. 0.5 * (real (length m) - 1))"
  by (induction ms) (simp_all add: field_simps)

lemma repeatedPenalty_sum:
  "repeatedPenalty password = (\<Sum>m\<leftarrow>matchRepeated password. 0.5 * (real (length m) - 1))"
proof (cases "matchRepeated password = []")
  case True
  then show ?thesis
    by (simp add: repeatedPenalty_def)
next
  case False
  then have "repeatedPenalty password =
      real_of_int (\<Sum>m\<leftarrow>matchRepeated password. int (length m) - 1) * 0.5"
    by (simp add: repeatedPenalty_def Let_def foldl_lengths)
  then show ?thesis
    by (simp only: half_lengths)
qed

lemma calculateEntropy_nonneg: "0 \<le> calculateEntropy password"
  by (simp add: calculateEntropy_def Let_def)

lemma eight_a:
  "charsetSize ''aaaaaaaa'' = 26" "matchRepeated ''aaaaaaaa'' = [''aaaaaaaa'']"
  "checkForSequentialChars ''aaaaaaaa'' = 0" "checkForCommonPatterns ''aaaaaaaa''"
  "runs ''aaaaaaaa'' = [''aaaaaaaa'']"
  by code_simp+

lemma eight_a_base: "36 \<le> baseEntropy ''aaaaaaaa''" "baseEntropy ''aaaaaaaa'' < 38"
proof -
  have b: "baseEntropy ''aaaaaaaa'' = log 2 (26 ^ 8)"
    by (simp add: baseEntropy_def eight_a)
  have "(2::real) powr 36 \<le> 26 ^ 8"
    by simp
  then show "36 \<le> baseEntropy ''aaaaaaaa''"
    unfolding b by (subst le_log_iff) simp_all
  have "(26::real) ^ 8 < 2 powr 38"
    by simp
  then show "baseEntropy ''aaaaaaaa'' < 38"
    unfolding b by (subst log_less_iff) simp_all
qed

lemma eight_a_entropy: "calculateEntropy ''aaaaaaaa'' = baseEntropy ''aaaaaaaa'' - 5.1"
proof -
  have "repeatedPenalty ''aaaaaaaa'' = 3.5" "sequentialPenalty ''aaaaaaaa'' = 0"
    "commonPatternPenalty ''aaaaaaaa'' = 1.6"
    unfolding repeatedPenalty_def sequentialPenalty_def commonPatternPenalty_def eight_a
    by (simp_all add: eight_a(4))
  with eight_a_base(1) show ?thesis
    by (simp add: calculateEntropy_penalties)
qed

lemma level_labels:
  "replace_char CHR '' '' CHR ''-'' (toLowerCase (label VERY_WEAK)) = ''very-weak''"
  "replace_char CHR '' '' CHR ''-'' (toLowerCase (label WEAK)) = ''weak''"
  "replace_char CHR '' '' CHR ''-'' (toLowerCase (label MEDIUM)) = ''medium''"
  "replace_char CHR '' '' CHR ''-'' (toLowerCase (label STRONG)) = ''strong''"
  "replace_char CHR '' '' CHR ''-'' (toLowerCase (label VERY_STRONG)) = ''very-strong''"
  by code_simp+

lemma getStrengthLevel_cases:
  "0 \<le> e \<Longrightarrow>
   getStrengthLevel e =
     (if e < 30 then VERY_WEAK else if e < 50 then WEAK else if e < 70 then MEDIUM
      else if e < 90 then STRONG else VERY_STRONG)"
  by (simp add: getStrengthLevel_def STRENGTH_LEVELS_def inRange_def VERY_WEAK_def WEAK_def
      MEDIUM_def STRONG_def VERY_STRONG_def)

lemma analyzePassword_strengthLevel:
  "strengthLevel (analyzePassword password opts) =
     replace_char CHR '' '' CHR ''-'' (toLowerCase (label (getStrengthLevel (calculateEntropy password))))"
  by (simp add: analyzePassword_def Let_def)

text \<open>
  The password \<^verbatim>\<open>aaaaaaaa\<close>: its run of length 8 costs 3.5, the entropy is 5.1 below
  the base entropy (1.6 more for the common pattern), and the level is WEAK, reported
  as \<^verbatim>\<open>weak\<close>.
\<close>

lemma eight_a_report:
  "runs ''aaaaaaaa'' = [''aaaaaaaa''] \<and>
   runPenalty (runs ''aaaaaaaa'') = 3.5 \<and>
   repeatedPenalty ''aaaaaaaa'' = 3.5 \<and>
   calculateEntropy ''aaaaaaaa'' = baseEntropy ''aaaaaaaa'' - 5.1 \<and>
   calculateEntropy ''aaaaaaaa'' < baseEntropy ''aaaaaaaa'' \<and>
   getStrengthLevel (calculateEntropy ''aaaaaaaa'') = WEAK \<and>
   strengthLevel (analyzePassword ''aaaaaaaa'' opts) = ''weak''"
proof -
  have r: "repeatedPenalty ''aaaaaaaa'' = 3.5"
    unfolding repeatedPenalty_def eight_a by simp
  from eight_a_base have e: "30 \<le> calculateEntropy ''aaaaaaaa''" "calculateEntropy ''aaaaaaaa'' < 50"
    by (simp_all add: eight_a_entropy)
  then have l: "getStrengthLevel (calculateEntropy ''aaaaaaaa'') = WEAK"
    by (simp add: getStrengthLevel_cases)
  then have "strengthLevel (analyzePassword ''aaaaaaaa'' opts) = ''weak''"
    by (simp only: analyzePassword_strengthLevel level_labels)
  moreover from eight_a_entropy have "calculateEntropy ''aaaaaaaa'' < baseEntropy ''aaaaaaaa''"
    by simp
  moreover have "runPenalty (runs ''aaaaaaaa'') = 3.5"
    unfolding eight_a(5) by (simp add: runPenalty_def)
  moreover note r l eight_a(5) eight_a_entropy
  ultimately show ?thesis
    by blast
qed

text \<open>
  C5 fails on the code. Two line feeds are a maximal run of two identical characters,
  for which 0.5 is to be subtracted. calculateEntropy subtracts nothing for them: its
  pattern \<^verbatim>\<open>/(.)\1+/g\<close>, written to find the repeated characters, has no match in two
  line feeds, since \<^verbatim>\<open>.\<close> does not match a line terminator.
\<close>

theorem repeatedPenalty_line_feeds:
  "runs [CHR 0x0A, CHR 0x0A] = [[CHR 0x0A, CHR 0x0A]] \<and>
   runPenalty (runs [CHR 0x0A, CHR 0x0A]) = 0.5 \<and>
   repeatedPenalty [CHR 0x0A, CHR 0x0A] = 0 \<and>
   calculateEntropy [CHR 0x0A, CHR 0x0A] = baseEntropy [CHR 0x0A, CHR 0x0A] \<and>
   calculateEntropy [CHR 0x0A, CHR 0x0A] \<noteq>
     max 0 (baseEntropy [CHR 0x0A, CHR 0x0A] -
       (runPenalty (runs [CHR 0x0A, CHR 0x0A]) + sequentialPenalty [CHR 0x0A, CHR 0x0A] +
        commonPatternPenalty [CHR 0x0A, CHR 0x0A]))"
proof -
  let ?s = "[CHR 0x0A, CHR 0x0A]"
  have c: "charsetSize ?s = 33" "matchRepeated ?s = []" "checkForSequentialChars ?s = 0"
    "\<not> checkForCommonPatterns ?s" "runs ?s = [?s]"
    by code_simp+
  have b: "baseEntropy ?s = log 2 1089"
    by (simp add: baseEntropy_def c)
  have pos: "0 < log 2 (1089::real)"
    by simp
  have p: "repeatedPenalty ?s = 0" "sequentialPenalty ?s = 0" "commonPatternPenalty ?s = 0"
    "runPenalty (runs ?s) = 0.5"
    unfolding repeatedPenalty_def sequentialPenalty_def commonPatternPenalty_def
      runPenalty_def c
    by (simp_all add: c(4))
  from pos have e: "calculateEntropy ?s = log 2 1089"
    by (simp add: calculateEntropy_penalties p b)
  have "max 0 (x - 0.5) \<noteq> x" if "0 < x" for x :: real
    using that by (simp add: max_def)
  from this [OF pos] have "max 0 (log 2 (1089::real) - 0.5) \<noteq> log 2 1089" .
  with e have "calculateEntropy ?s \<noteq>
     max 0 (baseEntropy ?s - (runPenalty (runs ?s) + sequentialPenalty ?s + commonPatternPenalty ?s))"
    unfolding p b by simp
  moreover from e b have "calculateEntropy ?s = baseEntropy ?s"
    by simp
  moreover note c(5) p(4) p(1)
  ultimately show ?thesis
    by blast
qed

subsection \<open>The two classifiers\<close>

lemma charsetSize_nonempty: "password \<noteq> [] \<Longrightarrow> 10 \<le> charsetSize password"
proof -
  assume "password \<noteq> []"
  then obtain c cs where p: "password = c # cs"
    by (cases password) auto
  have "isUpper c \<or> isLower c \<or> isDigit c \<or> isSymbol c"
    by (auto simp add: isSymbol_def)
  with p have "hasUppercase password \<or> hasLowercase password \<or> hasNumbers password \<or>
      hasSymbols password"
    by (auto simp add: hasUppercase_def hasLowercase_def hasNumbers_def hasSymbols_def)
  then show ?thesis
    by (auto simp add: charsetSize_def)
qed

lemma baseEntropy_nonneg: "0 \<le> baseEntropy password"
proof (cases "password = []")
  case True
  then show ?thesis
    by (simp add: baseEntropy_def)
next
  case False
  from charsetSize_nonempty [OF this] have c: "1 \<le> real (charsetSize password)"
    by simp
  then have "1 \<le> real (charsetSize password) ^ length password"
    by (rule one_le_power)
  moreover from this have "0 < real (charsetSize password) ^ length password"
    by linarith
  ultimately have "0 \<le> log 2 (real (charsetSize password) ^ length password)"
    by (subst zero_le_log_cancel_iff) simp_all
  then show ?thesis
    by (simp only: baseEntropy_def)
qed

lemma repeatedPenalty_nonneg: "0 \<le> repeatedPenalty password"
proof -
  have "0 \<le> 0.5 * (real (length m) - 1)" if "m \<in> set (matchRepeated password)" for m
    using that by (auto simp add: matchRepeated_runs)
  then show ?thesis
    unfolding repeatedPenalty_sum by (intro sum_list_nonneg) auto
qed

lemma calculateEntropy_le_base: "calculateEntropy password \<le> baseEntropy password"
proof -
  have "0 \<le> sequentialPenalty password" "0 \<le> commonPatternPenalty password"
    by (simp_all add: sequentialPenalty_def commonPatternPenalty_def)
  with repeatedPenalty_nonneg [of password] baseEntropy_nonneg [of password] show ?thesis
    by (simp add: calculateEntropy_penalties)
qed

lemma calculateStrength_strengthLevel:
  "strengthLevel (calculateStrength password) =
     (if baseEntropy password < 40 then ''weak''
      else if baseEntropy password < 60 then ''medium''
      else if baseEntropy password < 80 then ''strong''
      else ''very-strong'')"
  by (simp add: calculateStrength_def baseEntropy_def Let_def)

lemma analyzePassword_tier:
  "strengthLevel (analyzePassword password opts) =
     (if calculateEntropy password < 30 then ''very-weak''
      else if calculateEntropy password < 50 then ''weak''
      else if calculateEntropy password < 70 then ''medium''
      else if calculateEntropy password < 90 then ''strong''
      else ''very-strong'')"
  unfolding analyzePassword_strengthLevel getStrengthLevel_cases [OF calculateEntropy_nonneg]
  by (simp add: level_labels)

text \<open>
  C10, as amended. The two classifiers are different functions. calculateStrength
  names one of four levels from the entropy without penalties, with the bounds 40, 60
  and 80; analyzePassword names one of five levels from the penalized entropy, with the
  bounds 30, 50, 70 and 90. The penalized entropy is between 0 and the entropy without
  penalties, so the level of analyzePassword is never above that of calculateStrength
  in the order very-weak, weak, medium, strong, very-strong.
\<close>

theorem classifiers_ordered:
  "strengthLevel (calculateStrength password) =
     (if baseEntropy password < 40 then ''weak''
      else if baseEntropy password < 60 then ''medium''
      else if baseEntropy password < 80 then ''strong''
      else ''very-strong'') \<and>
   strengthLevel (analyzePassword password opts) =
     (if calculateEntropy password < 30 then ''very-weak''
      else if calculateEntropy password < 50 then ''weak''
      else if calculateEntropy password < 70 then ''medium''
      else if calculateEntropy password < 90 then ''strong''
      else ''very-strong'') \<and>
   0 \<le> calculateEntropy password \<and>
   calculateEntropy password \<le> baseEntropy password \<and>
   tierRank (strengthLevel (analyzePassword password opts))
     \<le> tierRank (strengthLevel (calculateStrength password))"
proof -
  note le = calculateEntropy_le_base [of password]
  have "tierRank (strengthLevel (analyzePassword password opts))
     \<le> tierRank (strengthLevel (calculateStrength password))"
    unfolding calculateStrength_strengthLevel analyzePassword_tier
    using le by (simp add: tierRank_def)
  with le calculateEntropy_nonneg [of password] show ?thesis
    by (simp only: calculateStrength_strengthLevel analyzePassword_tier simp_thms)
qed

text \<open>
  C10, as stated, fails: for \<^verbatim>\<open>48291736\<close>, a password of eight digits,
  calculateStrength says \<^verbatim>\<open>weak\<close> and analyzePassword says \<^verbatim>\<open>very-weak\<close>.
\<close>

theorem classifiers_counterexample:
  "strengthLevel (calculateStrength ''48291736'') = ''weak'' \<and>
   strengthLevel (analyzePassword ''48291736''
     \<lparr>length_opt = 8, uppercase = False, lowercase = False, numbers = True, symbols = False,
      excludeSimilar = False\<rparr>) = ''very-weak'' \<and>
   strengthLevel (calculateStrength ''48291736'') \<noteq>
   strengthLevel (analyzePassword ''48291736''
     \<lparr>length_opt = 8, uppercase = False, lowercase = False, numbers = True, symbols = False,
      excludeSimilar = False\<rparr>)"
proof -
  have c: "charsetSize ''48291736'' = 10"
    by code_simp
  have b: "baseEntropy ''48291736'' = log 2 (10 ^ 8)"
    by (simp add: baseEntropy_def c)
  have "(10::real) ^ 8 < 2 powr 30"
    by simp
  then have lt: "baseEntropy ''48291736'' < 30"
    unfolding b by (subst log_less_iff) simp_all
  with calculateEntropy_le_base [of "''48291736''"] have "calculateEntropy ''48291736'' < 30"
    by simp
  with lt show ?thesis
    by (simp add: calculateStrength_strengthLevel analyzePassword_tier)
qed

end
